theory Spec2Isabelle
  imports Complex_Main "HOL-Library.Word" "HOL-Library.Monad_Syntax"
begin

section \<open>JavaScript values used by the services\<close>

text \<open>
  A JavaScript string is a sequence of UTF-16 code units; \<open>s.length\<close> is the number of
  code units.  Numbers that the services store (timestamps, lengths, limits) are
  integer-valued; they are modelled as \<open>int\<close>.  Fractions, NaN and the infinities are not
  modelled.
\<close>

type_synonym code_unit = "16 word"
type_synonym jsstring = "code_unit list"

definition js :: "string \<Rightarrow> jsstring" where
  "js s = map (\<lambda>c. of_nat (of_char c)) s"

text \<open>
  \<open>Array.prototype.slice(start)\<close> with one argument: a negative start counts from the
  end, the start is clamped to the array, and \<open>-0\<close> is \<open>0\<close>, so \<open>xs.slice(-0)\<close> is a
  copy of the whole array.
\<close>

definition slice_from :: "int \<Rightarrow> 'a list \<Rightarrow> 'a list" where
  "slice_from start xs =
     (let len = int (length xs);
          k = (if start < 0 then max (len + start) 0 else min start len)
      in drop (nat k) xs)"

text \<open>\<open>Array.prototype.slice(start, end)\<close> with both arguments.\<close>

definition slice_range :: "int \<Rightarrow> int \<Rightarrow> 'a list \<Rightarrow> 'a list" where
  "slice_range start end xs =
     (let len = int (length xs);
          k = (if start < 0 then max (len + start) 0 else min start len);
          final = (if end < 0 then max (len + end) 0 else min end len)
      in take (nat (final - k)) (drop (nat k) xs))"

section \<open>types/index.ts\<close>

datatype MessageType = Text | Image | Video | Audio | Document | Location | Contact

record WhatsAppMessage =
  id_m :: jsstring
  from_m :: jsstring
  to_m :: jsstring
  timestamp :: int
  type_m :: MessageType
  content :: jsstring
  isGroup :: bool
  groupId :: "jsstring option"
  senderName :: "jsstring option"

record ChatHistory =
  chatId :: jsstring
  messages :: "WhatsAppMessage list"
  lastUpdated :: int

section \<open>services/chat-history.service.ts\<close>

text \<open>
  \<open>Map<string, ChatHistory>\<close> keeps its entries in insertion order: \<open>set\<close> on a key that is
  present replaces the value in place, \<open>set\<close> on a new key appends, \<open>delete\<close> removes the
  entry.  The map is an association list whose keys are pairwise distinct.
\<close>

type_synonym history_map = "(jsstring \<times> ChatHistory) list"

definition map_get :: "history_map \<Rightarrow> jsstring \<Rightarrow> ChatHistory option" where
  "map_get m k = map_of m k"

fun map_set :: "history_map \<Rightarrow> jsstring \<Rightarrow> ChatHistory \<Rightarrow> history_map" where
  "map_set [] k v = [(k, v)]"
| "map_set ((k', v') # m) k v = (if k' = k then (k, v) # m else (k', v') # map_set m k v)"

fun map_delete :: "history_map \<Rightarrow> jsstring \<Rightarrow> history_map" where
  "map_delete [] k = []"
| "map_delete ((k', v') # m) k = (if k' = k then m else (k', v') # map_delete m k)"

record ChatHistoryService =
  chatHistories :: history_map
  maxHistoryLength :: int

definition new_ChatHistoryService :: "int \<Rightarrow> ChatHistoryService" where
  "new_ChatHistoryService maxLen = \<lparr>chatHistories = [], maxHistoryLength = maxLen\<rparr>"

text \<open>
  \<open>addMessage\<close>.  The history object is mutated in place, so the entry keeps its position
  in the map.  \<open>now\<close> is the reading of \<open>Date.now()\<close> at the final assignment to
  \<open>lastUpdated\<close> (the stamp given to a fresh entry is overwritten by it).  Nothing in the
  body throws on well-typed data, so the \<open>catch\<close> branch, which only logs, is not taken.
\<close>

definition addMessage ::
  "ChatHistoryService \<Rightarrow> int \<Rightarrow> jsstring \<Rightarrow> WhatsAppMessage \<Rightarrow> ChatHistoryService" where
  "addMessage s now cid message =
     (let chatHistory =
            (case map_get (chatHistories s) cid of
               None \<Rightarrow> \<lparr>chatId = cid, messages = [], lastUpdated = now\<rparr>
             | Some h \<Rightarrow> h);
          pushed = messages chatHistory @ [message];
          limited =
            (if int (length pushed) > maxHistoryLength s
             then slice_from (- maxHistoryLength s) pushed
             else pushed)
      in s\<lparr>chatHistories :=
             map_set (chatHistories s) cid
               (chatHistory\<lparr>messages := limited, lastUpdated := now\<rparr>)\<rparr>)"

definition getChatHistory :: "ChatHistoryService \<Rightarrow> jsstring \<Rightarrow> WhatsAppMessage list" where
  "getChatHistory s cid =
     (case map_get (chatHistories s) cid of
        Some chatHistory \<Rightarrow> messages chatHistory
      | None \<Rightarrow> [])"

definition getRecentMessages ::
  "ChatHistoryService \<Rightarrow> jsstring \<Rightarrow> int \<Rightarrow> WhatsAppMessage list" where
  "getRecentMessages s cid count = slice_from (- count) (getChatHistory s cid)"

definition getConversationContext ::
  "ChatHistoryService \<Rightarrow> jsstring \<Rightarrow> int \<Rightarrow> WhatsAppMessage list" where
  "getConversationContext s cid maxMessages = slice_from (- maxMessages) (getChatHistory s cid)"

definition clearChatHistory :: "ChatHistoryService \<Rightarrow> jsstring \<Rightarrow> ChatHistoryService" where
  "clearChatHistory s cid = s\<lparr>chatHistories := map_delete (chatHistories s) cid\<rparr>"

text \<open>
  \<open>getChatHistoryStats\<close>.  \<open>lastMessageTime\<close> is \<open>null\<close> for an empty history.
  \<open>Math.round\<close> of the quotient rounds halves up.
\<close>

record HistoryStats =
  totalMessages :: nat
  lastMessageTime :: "int option"
  averageMessageLength :: int

definition math_round_div :: "int \<Rightarrow> int \<Rightarrow> int" where
  "math_round_div a b = (2 * a + b) div (2 * b)"

definition getChatHistoryStats :: "ChatHistoryService \<Rightarrow> jsstring \<Rightarrow> HistoryStats" where
  "getChatHistoryStats s cid =
     (let msgs = getChatHistory s cid in
      case msgs of
        [] \<Rightarrow> \<lparr>totalMessages = 0, lastMessageTime = None, averageMessageLength = 0\<rparr>
      | m # ms \<Rightarrow>
          (let totalLength = foldl (\<lambda>sum msg. sum + int (length (content msg))) 0 msgs;
               lastTime = foldl max (timestamp m) (map timestamp ms)
           in \<lparr>totalMessages = length msgs,
               lastMessageTime = Some lastTime,
               averageMessageLength = math_round_div totalLength (int (length msgs))\<rparr>))"

text \<open>
  \<open>cleanupOldHistories\<close>.  The loop walks the entries of the map and deletes an entry
  while it stands on it; \<open>now\<close> is the reading of \<open>Date.now()\<close>.
\<close>

fun cleanup_loop ::
  "int \<Rightarrow> (jsstring \<times> ChatHistory) list \<Rightarrow> history_map \<Rightarrow> nat \<Rightarrow> history_map \<times> nat" where
  "cleanup_loop cutoffTime [] m cleanedCount = (m, cleanedCount)"
| "cleanup_loop cutoffTime ((cid, chatHistory) # entries) m cleanedCount =
     (if lastUpdated chatHistory < cutoffTime
      then cleanup_loop cutoffTime entries (map_delete m cid) (cleanedCount + 1)
      else cleanup_loop cutoffTime entries m cleanedCount)"

definition cleanupOldHistories ::
  "ChatHistoryService \<Rightarrow> int \<Rightarrow> int \<Rightarrow> ChatHistoryService \<times> nat" where
  "cleanupOldHistories s now daysOld =
     (let cutoffTime = now - daysOld * 24 * 60 * 60 * 1000;
          (m, cleanedCount) = cleanup_loop cutoffTime (chatHistories s) (chatHistories s) 0
      in (s\<lparr>chatHistories := m\<rparr>, cleanedCount))"

section \<open>services/ai.service.ts\<close>

text \<open>
  \<open>String.prototype.includes\<close>: the needle occurs as a contiguous run of code units.
\<close>

fun starts_with :: "jsstring \<Rightarrow> jsstring \<Rightarrow> bool" where
  "starts_with s [] = True"
| "starts_with [] (n # needle) = False"
| "starts_with (c # s) (n # needle) = (c = n \<and> starts_with s needle)"

fun includes_js :: "jsstring \<Rightarrow> jsstring \<Rightarrow> bool" where
  "includes_js [] needle = (needle = [])"
| "includes_js (c # s) needle = (starts_with (c # s) needle \<or> includes_js s needle)"

text \<open>
  \<open>String.prototype.trim\<close> strips white space and line terminators from both ends:
  TAB, LF, VT, FF, CR, SPACE, NBSP, OGHAM SPACE MARK, U+2000 to U+200A, LINE and PARAGRAPH
  SEPARATOR, NARROW NBSP, MEDIUM MATHEMATICAL SPACE, IDEOGRAPHIC SPACE and the BOM.
\<close>

definition is_trimmed_unit :: "code_unit \<Rightarrow> bool" where
  "is_trimmed_unit c \<longleftrightarrow>
     c \<in> {0x0009, 0x000A, 0x000B, 0x000C, 0x000D, 0x0020, 0x00A0, 0x1680,
          0x2000, 0x2001, 0x2002, 0x2003, 0x2004, 0x2005, 0x2006, 0x2007, 0x2008, 0x2009,
          0x200A, 0x2028, 0x2029, 0x202F, 0x205F, 0x3000, 0xFEFF}"

definition trim :: "jsstring \<Rightarrow> jsstring" where
  "trim s = rev (dropWhile is_trimmed_unit (rev (dropWhile is_trimmed_unit s)))"

text \<open>A string is truthy when it is not empty.\<close>

definition truthy :: "jsstring \<Rightarrow> bool" where
  "truthy s \<longleftrightarrow> s \<noteq> []"

datatype Role = User | Assistant

record ContextEntry =
  role :: Role
  content_c :: jsstring

text \<open>\<open>buildConversationContext\<close>: the loop pushes onto \<open>context\<close>.\<close>

fun context_loop :: "WhatsAppMessage list \<Rightarrow> ContextEntry list \<Rightarrow> ContextEntry list" where
  "context_loop [] context = context"
| "context_loop (msg # rest) context =
     (let r = (if includes_js (from_m msg) (js ''@s.whatsapp.net'') then Assistant else User);
          c = content msg
      in if truthy (trim c)
         then context_loop rest (context @ [\<lparr>role = r, content_c = c\<rparr>])
         else context_loop rest context)"

definition buildConversationContext :: "WhatsAppMessage list \<Rightarrow> ContextEntry list" where
  "buildConversationContext chatHistory = context_loop (slice_from (- 10) chatHistory) []"

text \<open>\<open>String.prototype.split\<close> with a separator of one code unit.\<close>

fun split_loop :: "code_unit \<Rightarrow> jsstring \<Rightarrow> jsstring \<Rightarrow> jsstring list" where
  "split_loop sep cur [] = [rev cur]"
| "split_loop sep cur (c # s) =
     (if c = sep then rev cur # split_loop sep [] s else split_loop sep (c # cur) s)"

definition split :: "jsstring \<Rightarrow> code_unit \<Rightarrow> jsstring list" where
  "split s sep = split_loop sep [] s"

definition commonWords :: "jsstring list" where
  "commonWords = map js
     [''the'', ''and'', ''or'', ''but'', ''in'', ''on'', ''at'', ''to'', ''for'', ''of'', ''with'',
      ''by'', ''is'', ''are'', ''was'', ''were'', ''be'', ''been'', ''have'', ''has'', ''had'',
      ''do'', ''does'', ''did'', ''will'', ''would'', ''could'', ''should'', ''may'', ''might'',
      ''can'', ''this'', ''that'', ''these'', ''those'', ''i'', ''you'', ''he'', ''she'', ''it'',
      ''we'', ''they'', ''me'', ''him'', ''her'', ''us'', ''them'', ''my'', ''your'', ''his'',
      ''her'', ''its'', ''our'', ''their'', ''mine'', ''yours'', ''his'', ''hers'', ''ours'',
      ''theirs'', ''a'', ''an'', ''the'', ''and'', ''or'', ''but'', ''if'', ''then'', ''else'',
      ''when'', ''at'', ''from'', ''up'', ''about'', ''into'', ''through'', ''during'',
      ''before'', ''after'', ''above'', ''below'', ''between'', ''among'', ''under'',
      ''over'', ''inside'', ''outside'', ''within'', ''without'', ''against'', ''toward'',
      ''towards'', ''upon'', ''across'', ''behind'', ''beneath'', ''beside'', ''beyond'',
      ''inside'', ''near'', ''off'', ''out'', ''outside'', ''over'', ''past'', ''since'',
      ''through'', ''throughout'', ''to'', ''toward'', ''under'', ''underneath'', ''until'',
      ''up'', ''upon'', ''with'', ''within'', ''without'']"

definition isCommonWord :: "jsstring \<Rightarrow> bool" where
  "isCommonWord word \<longleftrightarrow> word \<in> set commonWords"

text \<open>
  \<open>extractContext\<close>.  \<open>String.prototype.toLowerCase\<close> is driven by the Unicode case
  tables; it is the parameter \<open>toLowerCase\<close>, and what is proved holds for every function
  in its place.  \<open>ascii_toLowerCase\<close> is its restriction to ASCII text.
\<close>

definition ascii_toLowerCase :: "jsstring \<Rightarrow> jsstring" where
  "ascii_toLowerCase s = map (\<lambda>c. if 0x41 \<le> c \<and> c \<le> 0x5A then c + 0x20 else c) s"

fun words_loop :: "jsstring list \<Rightarrow> jsstring list \<Rightarrow> jsstring list" where
  "words_loop [] topics = topics"
| "words_loop (word # ws) topics =
     (if length word > 3 \<and> \<not> isCommonWord word
      then words_loop ws (topics @ [word])
      else words_loop ws topics)"

fun topics_loop ::
  "(jsstring \<Rightarrow> jsstring) \<Rightarrow> WhatsAppMessage list \<Rightarrow> jsstring list \<Rightarrow> jsstring list" where
  "topics_loop toLowerCase [] topics = topics"
| "topics_loop toLowerCase (msg # rest) topics =
     topics_loop toLowerCase rest (words_loop (split (toLowerCase (content msg)) 0x20) topics)"

definition extractContext ::
  "(jsstring \<Rightarrow> jsstring) \<Rightarrow> WhatsAppMessage list \<Rightarrow> jsstring list" where
  "extractContext toLowerCase chatHistory =
     slice_range 0 5 (topics_loop toLowerCase (slice_from (- 5) chatHistory) [])"

section \<open>JSON text\<close>

text \<open>
  \<open>JSON.stringify\<close> and \<open>JSON.parse\<close> follow ECMA-262.  A parsed number is kept as its
  exact value; rounding to an IEEE double is not modelled.  An integer is written in
  decimal digits, as JavaScript writes the integers of fewer than 22 digits.
  A lone surrogate is written as an escape and a surrogate pair as it is (well-formed
  \<open>JSON.stringify\<close>).
\<close>

datatype json =
    JNull
  | JBoolean bool
  | JNumber rat
  | JString jsstring
  | JArray "json list"
  | JObject "(jsstring \<times> json) list"

subsection \<open>JSON.stringify\<close>

text \<open>
  The code units that occur below: \<open>0x22\<close> quotation mark, \<open>0x5C\<close> backslash, \<open>0x2F\<close>
  solidus, \<open>0x7B\<close> and \<open>0x7D\<close> braces, \<open>0x5B\<close> and \<open>0x5D\<close> brackets, \<open>0x3A\<close> colon,
  \<open>0x2C\<close> comma, \<open>0x20\<close> space, \<open>0x0A\<close> line feed, \<open>0x2D\<close> minus, \<open>0x2B\<close> plus,
  \<open>0x2E\<close> full stop, \<open>0x30\<close> to \<open>0x39\<close> the digits, \<open>0x65\<close> and \<open>0x45\<close> the letter e,
  \<open>0x75\<close> the letter u.
\<close>

definition hex_unit :: "nat \<Rightarrow> code_unit" where
  "hex_unit n = (if n < 10 then 0x30 + of_nat n else 0x61 + of_nat (n - 10))"

definition UnicodeEscape :: "code_unit \<Rightarrow> jsstring" where
  "UnicodeEscape c =
     [0x5C, 0x75, hex_unit (unat c div 4096), hex_unit (unat c div 256 mod 16),
      hex_unit (unat c div 16 mod 16), hex_unit (unat c mod 16)]"

definition is_leading_surrogate :: "code_unit \<Rightarrow> bool" where
  "is_leading_surrogate c \<longleftrightarrow> 0xD800 \<le> c \<and> c \<le> 0xDBFF"

definition is_trailing_surrogate :: "code_unit \<Rightarrow> bool" where
  "is_trailing_surrogate c \<longleftrightarrow> 0xDC00 \<le> c \<and> c \<le> 0xDFFF"

definition quote_unit :: "code_unit \<Rightarrow> jsstring" where
  "quote_unit c =
     (if c = 0x08 then [0x5C, 0x62]
      else if c = 0x09 then [0x5C, 0x74]
      else if c = 0x0A then [0x5C, 0x6E]
      else if c = 0x0C then [0x5C, 0x66]
      else if c = 0x0D then [0x5C, 0x72]
      else if c = 0x22 then [0x5C, 0x22]
      else if c = 0x5C then [0x5C, 0x5C]
      else if c < 0x20 \<or> is_leading_surrogate c \<or> is_trailing_surrogate c then UnicodeEscape c
      else [c])"

fun quote_units :: "jsstring \<Rightarrow> jsstring" where
  "quote_units [] = []"
| "quote_units [c] = quote_unit c"
| "quote_units (c # d # s) =
     (if is_leading_surrogate c \<and> is_trailing_surrogate d
      then c # d # quote_units s
      else quote_unit c @ quote_units (d # s))"

definition QuoteJSONString :: "jsstring \<Rightarrow> jsstring" where
  "QuoteJSONString s = 0x22 # quote_units s @ [0x22]"

fun digits :: "nat \<Rightarrow> jsstring" where
  "digits n = (if n < 10 then [0x30 + of_nat n] else digits (n div 10) @ [0x30 + of_nat (n mod 10)])"

declare digits.simps [simp del]

definition NumberToString :: "int \<Rightarrow> jsstring" where
  "NumberToString n = (if n < 0 then 0x2D # digits (nat (- n)) else digits (nat n))"

definition indent :: "nat \<Rightarrow> jsstring" where
  "indent n = replicate n 0x20"

fun join :: "jsstring list \<Rightarrow> jsstring \<Rightarrow> jsstring" where
  "join [] sep = []"
| "join [x] sep = x"
| "join (x # y # ys) sep = x @ sep @ join (y # ys) sep"

definition SerializeJSONObject :: "nat \<Rightarrow> (jsstring \<times> jsstring) list \<Rightarrow> jsstring" where
  "SerializeJSONObject stepback partial =
     (if partial = [] then [0x7B, 0x7D]
      else
        (let ind = stepback + 2;
             members = map (\<lambda>(k, strP). QuoteJSONString k @ [0x3A, 0x20] @ strP) partial
         in [0x7B, 0x0A] @ indent ind @ join members ([0x2C, 0x0A] @ indent ind) @
            [0x0A] @ indent stepback @ [0x7D]))"

definition SerializeJSONArray :: "nat \<Rightarrow> jsstring list \<Rightarrow> jsstring" where
  "SerializeJSONArray stepback partial =
     (if partial = [] then [0x5B, 0x5D]
      else
        (let ind = stepback + 2
         in [0x5B, 0x0A] @ indent ind @ join partial ([0x2C, 0x0A] @ indent ind) @
            [0x0A] @ indent stepback @ [0x5D]))"

subsection \<open>JSON.parse\<close>

definition is_ws :: "code_unit \<Rightarrow> bool" where
  "is_ws c \<longleftrightarrow> c = 0x20 \<or> c = 0x09 \<or> c = 0x0A \<or> c = 0x0D"

definition skip_ws :: "jsstring \<Rightarrow> jsstring" where
  "skip_ws s = dropWhile is_ws s"

definition hex_value :: "code_unit \<Rightarrow> nat option" where
  "hex_value c =
     (if 0x30 \<le> c \<and> c \<le> 0x39 then Some (unat c - 48)
      else if 0x61 \<le> c \<and> c \<le> 0x66 then Some (unat c - 87)
      else if 0x41 \<le> c \<and> c \<le> 0x46 then Some (unat c - 55)
      else None)"

definition hex4 :: "code_unit \<Rightarrow> code_unit \<Rightarrow> code_unit \<Rightarrow> code_unit \<Rightarrow> code_unit option" where
  "hex4 a b c d =
     (case (hex_value a, hex_value b, hex_value c, hex_value d) of
        (Some x, Some y, Some z, Some w) \<Rightarrow> Some (of_nat (((x * 16 + y) * 16 + z) * 16 + w))
      | _ \<Rightarrow> None)"

definition unescape :: "code_unit \<Rightarrow> code_unit option" where
  "unescape e =
     (if e = 0x22 then Some 0x22
      else if e = 0x5C then Some 0x5C
      else if e = 0x2F then Some 0x2F
      else if e = 0x62 then Some 0x08
      else if e = 0x66 then Some 0x0C
      else if e = 0x6E then Some 0x0A
      else if e = 0x72 then Some 0x0D
      else if e = 0x74 then Some 0x09
      else None)"

fun string_chars :: "jsstring \<Rightarrow> (jsstring \<times> jsstring) option" where
  "string_chars [] = None"
| "string_chars (c # cs) =
     (if c = 0x22 then Some ([], cs)
      else if c = 0x5C then
        (case cs of
           [] \<Rightarrow> None
         | e # cs1 \<Rightarrow>
             if e = 0x75 then
               (case cs1 of
                  h1 # h2 # h3 # h4 # cs2 \<Rightarrow>
                    (case hex4 h1 h2 h3 h4 of
                       None \<Rightarrow> None
                     | Some u \<Rightarrow>
                         (case string_chars cs2 of
                            None \<Rightarrow> None
                          | Some (s, r) \<Rightarrow> Some (u # s, r)))
                | _ \<Rightarrow> None)
             else
               (case unescape e of
                  None \<Rightarrow> None
                | Some u \<Rightarrow>
                    (case string_chars cs1 of
                       None \<Rightarrow> None
                     | Some (s, r) \<Rightarrow> Some (u # s, r))))
      else if c < 0x20 then None
      else
        (case string_chars cs of
           None \<Rightarrow> None
         | Some (s, r) \<Rightarrow> Some (c # s, r)))"

definition is_digit :: "code_unit \<Rightarrow> bool" where
  "is_digit c \<longleftrightarrow> 0x30 \<le> c \<and> c \<le> 0x39"

definition digits_value :: "jsstring \<Rightarrow> nat" where
  "digits_value ds = foldl (\<lambda>a d. 10 * a + (unat d - 48)) 0 ds"

definition parse_sign :: "jsstring \<Rightarrow> bool \<times> jsstring" where
  "parse_sign cs = (case cs of [] \<Rightarrow> (False, cs) | c # r \<Rightarrow> if c = 0x2D then (True, r) else (False, cs))"

definition parse_fraction :: "jsstring \<Rightarrow> (jsstring \<times> jsstring) option" where
  "parse_fraction cs =
     (case cs of
        [] \<Rightarrow> Some ([], cs)
      | c # r \<Rightarrow>
          if c = 0x2E
          then (if takeWhile is_digit r = [] then None
                else Some (takeWhile is_digit r, dropWhile is_digit r))
          else Some ([], cs))"

definition parse_exponent :: "jsstring \<Rightarrow> (int \<times> jsstring) option" where
  "parse_exponent cs =
     (case cs of
        [] \<Rightarrow> Some (0, cs)
      | c # r \<Rightarrow>
          if c = 0x65 \<or> c = 0x45
          then
            (let (sgn, r1) =
                   (case r of
                      [] \<Rightarrow> (1, r)
                    | s # r' \<Rightarrow> if s = 0x2B then (1, r') else if s = 0x2D then (- 1, r') else (1, r))
             in if takeWhile is_digit r1 = [] then None
                else Some (sgn * int (digits_value (takeWhile is_digit r1)), dropWhile is_digit r1))
          else Some (0, cs))"

definition parse_number :: "jsstring \<Rightarrow> (rat \<times> jsstring) option" where
  "parse_number cs =
     (let (neg, cs1) = parse_sign cs;
          ip = takeWhile is_digit cs1
      in if ip = [] \<or> (length ip > 1 \<and> hd ip = 0x30) then None
         else
           (case parse_fraction (dropWhile is_digit cs1) of
              None \<Rightarrow> None
            | Some (fp, cs2) \<Rightarrow>
                (case parse_exponent cs2 of
                   None \<Rightarrow> None
                 | Some (e, cs3) \<Rightarrow>
                     Some ((if neg then - 1 else 1) * of_nat (digits_value (ip @ fp))
                             * 10 powi (e - int (length fp)),
                           cs3))))"

lemma skip_ws_length: "length (skip_ws s) \<le> length s"
  by (simp add: skip_ws_def length_dropWhile_le)

lemma skip_ws_Cons_length: "skip_ws s = c # r \<Longrightarrow> length r < length s"
  using skip_ws_length [of s] by simp

function parse_value :: "jsstring \<Rightarrow> (json \<times> jsstring) option"
  and parse_elements :: "jsstring \<Rightarrow> (json list \<times> jsstring) option"
  and parse_members :: "jsstring \<Rightarrow> ((jsstring \<times> json) list \<times> jsstring) option" where
  "parse_value cs =
     (case skip_ws cs of
        [] \<Rightarrow> None
      | c # r \<Rightarrow>
          if c = 0x7B then
            (case skip_ws r of
               [] \<Rightarrow> None
             | d # r' \<Rightarrow>
                 if d = 0x7D then Some (JObject [], r')
                 else (case parse_members (d # r') of
                         None \<Rightarrow> None
                       | Some (kvs, r'') \<Rightarrow> Some (JObject kvs, r'')))
          else if c = 0x5B then
            (case skip_ws r of
               [] \<Rightarrow> None
             | d # r' \<Rightarrow>
                 if d = 0x5D then Some (JArray [], r')
                 else (case parse_elements (d # r') of
                         None \<Rightarrow> None
                       | Some (vs, r'') \<Rightarrow> Some (JArray vs, r'')))
          else if c = 0x22 then
            (case string_chars r of
               None \<Rightarrow> None
             | Some (s, r') \<Rightarrow> Some (JString s, r'))
          else if take 4 (c # r) = js ''true'' then Some (JBoolean True, drop 4 (c # r))
          else if take 5 (c # r) = js ''false'' then Some (JBoolean False, drop 5 (c # r))
          else if take 4 (c # r) = js ''null'' then Some (JNull, drop 4 (c # r))
          else
            (case parse_number (c # r) of
               None \<Rightarrow> None
             | Some (x, r') \<Rightarrow> Some (JNumber x, r')))"
| "parse_elements cs =
     (case parse_value cs of
        None \<Rightarrow> None
      | Some (v, r) \<Rightarrow>
          (case skip_ws r of
             [] \<Rightarrow> None
           | d # r' \<Rightarrow>
               if d = 0x5D then Some ([v], r')
               else if d = 0x2C \<and> length r' < length cs then
                 (case parse_elements r' of
                    None \<Rightarrow> None
                  | Some (vs, r'') \<Rightarrow> Some (v # vs, r''))
               else None))"
| "parse_members cs =
     (case skip_ws cs of
        [] \<Rightarrow> None
      | q # r \<Rightarrow>
          if q \<noteq> 0x22 then None
          else
            (case string_chars r of
               None \<Rightarrow> None
             | Some (k, r1) \<Rightarrow>
                 (case skip_ws r1 of
                    [] \<Rightarrow> None
                  | colon # r2 \<Rightarrow>
                      if colon = 0x3A \<and> length r2 < length cs then
                        (case parse_value r2 of
                           None \<Rightarrow> None
                         | Some (v, r3) \<Rightarrow>
                             (case skip_ws r3 of
                                [] \<Rightarrow> None
                              | d # r4 \<Rightarrow>
                                  if d = 0x7D then Some ([(k, v)], r4)
                                  else if d = 0x2C \<and> length r4 < length cs then
                                    (case parse_members r4 of
                                       None \<Rightarrow> None
                                     | Some (kvs, r5) \<Rightarrow> Some ((k, v) # kvs, r5))
                                  else None))
                      else None)))"
  by pat_completeness auto
termination
  apply (relation "measure (\<lambda>x. case x of
            Inl cs \<Rightarrow> 2 * length cs
          | Inr (Inl cs) \<Rightarrow> 2 * length cs + 1
          | Inr (Inr cs) \<Rightarrow> 2 * length cs + 1)")
  apply (auto dest!: skip_ws_Cons_length)
  done

declare parse_value.simps [simp del] parse_elements.simps [simp del] parse_members.simps [simp del]

definition JSON_parse :: "jsstring \<Rightarrow> json option" where
  "JSON_parse text =
     (case parse_value text of
        None \<Rightarrow> None
      | Some (v, r) \<Rightarrow> if skip_ws r = [] then Some v else None)"

section \<open>Export and import of a chat history\<close>

text \<open>
  \<open>JSON.stringify(chatHistory, null, 2)\<close> on a \<open>ChatHistory\<close> object.  Properties are
  written in the order of the object literals that create them; a property whose value is
  \<open>undefined\<close> is left out.  The message objects stand at indentation 4 inside the
  \<open>messages\<close> array, which stands at indentation 2.
\<close>

definition type_string :: "MessageType \<Rightarrow> jsstring" where
  "type_string t =
     (case t of
        Text \<Rightarrow> js ''text'' | Image \<Rightarrow> js ''image'' | Video \<Rightarrow> js ''video''
      | Audio \<Rightarrow> js ''audio'' | Document \<Rightarrow> js ''document'' | Location \<Rightarrow> js ''location''
      | Contact \<Rightarrow> js ''contact'')"

definition stringify_WhatsAppMessage :: "nat \<Rightarrow> WhatsAppMessage \<Rightarrow> jsstring" where
  "stringify_WhatsAppMessage stepback m =
     SerializeJSONObject stepback
       ([(js ''id'', QuoteJSONString (id_m m)),
         (js ''from'', QuoteJSONString (from_m m)),
         (js ''to'', QuoteJSONString (to_m m)),
         (js ''timestamp'', NumberToString (timestamp m)),
         (js ''type'', QuoteJSONString (type_string (type_m m))),
         (js ''content'', QuoteJSONString (content m)),
         (js ''isGroup'', if isGroup m then js ''true'' else js ''false'')]
        @ (case groupId m of None \<Rightarrow> [] | Some g \<Rightarrow> [(js ''groupId'', QuoteJSONString g)])
        @ (case senderName m of None \<Rightarrow> [] | Some n \<Rightarrow> [(js ''senderName'', QuoteJSONString n)]))"

definition stringify_ChatHistory :: "ChatHistory \<Rightarrow> jsstring" where
  "stringify_ChatHistory h =
     SerializeJSONObject 0
       [(js ''chatId'', QuoteJSONString (chatId h)),
        (js ''messages'', SerializeJSONArray 2 (map (stringify_WhatsAppMessage 4) (messages h))),
        (js ''lastUpdated'', NumberToString (lastUpdated h))]"


text \<open>
  Reading a property of a parsed object: of several members with one key the last one
  stays.  A property that is absent reads as \<open>undefined\<close>, here \<open>None\<close>.
\<close>

definition get_property :: "(jsstring \<times> json) list \<Rightarrow> jsstring \<Rightarrow> json option" where
  "get_property kvs k = map_of (rev kvs) k"

text \<open>
  The annotation \<open>const chatHistory: ChatHistory = JSON.parse(jsonData)\<close> is not checked
  when the program runs.  The functions below say which parsed values inhabit the types of
  \<open>types/index.ts\<close>, with numbers restricted to integers.
\<close>

definition as_string :: "json option \<Rightarrow> jsstring option" where
  "as_string x = (case x of Some (JString s) \<Rightarrow> Some s | _ \<Rightarrow> None)"

definition as_integer :: "json option \<Rightarrow> int option" where
  "as_integer x =
     (case x of
        Some (JNumber r) \<Rightarrow> if of_int \<lfloor>r\<rfloor> = r then Some \<lfloor>r\<rfloor> else None
      | _ \<Rightarrow> None)"

definition as_boolean :: "json option \<Rightarrow> bool option" where
  "as_boolean x = (case x of Some (JBoolean b) \<Rightarrow> Some b | _ \<Rightarrow> None)"

definition as_optional_string :: "json option \<Rightarrow> jsstring option option" where
  "as_optional_string x =
     (case x of None \<Rightarrow> Some None | Some (JString s) \<Rightarrow> Some (Some s) | _ \<Rightarrow> None)"

definition as_MessageType :: "json option \<Rightarrow> MessageType option" where
  "as_MessageType x =
     (case x of
        Some (JString s) \<Rightarrow>
          if s = js ''text'' then Some Text
          else if s = js ''image'' then Some Image
          else if s = js ''video'' then Some Video
          else if s = js ''audio'' then Some Audio
          else if s = js ''document'' then Some Document
          else if s = js ''location'' then Some Location
          else if s = js ''contact'' then Some Contact
          else None
      | _ \<Rightarrow> None)"

definition as_WhatsAppMessage :: "json \<Rightarrow> WhatsAppMessage option" where
  "as_WhatsAppMessage j =
     (case j of
        JObject kvs \<Rightarrow>
          do {
            i \<leftarrow> as_string (get_property kvs (js ''id''));
            f \<leftarrow> as_string (get_property kvs (js ''from''));
            t \<leftarrow> as_string (get_property kvs (js ''to''));
            ts \<leftarrow> as_integer (get_property kvs (js ''timestamp''));
            ty \<leftarrow> as_MessageType (get_property kvs (js ''type''));
            c \<leftarrow> as_string (get_property kvs (js ''content''));
            g \<leftarrow> as_boolean (get_property kvs (js ''isGroup''));
            gid \<leftarrow> as_optional_string (get_property kvs (js ''groupId''));
            sn \<leftarrow> as_optional_string (get_property kvs (js ''senderName''));
            Some \<lparr>id_m = i, from_m = f, to_m = t, timestamp = ts, type_m = ty, content = c,
                  isGroup = g, groupId = gid, senderName = sn\<rparr>
          }
      | _ \<Rightarrow> None)"

definition as_messages :: "json option \<Rightarrow> WhatsAppMessage list option" where
  "as_messages x =
     (case x of Some (JArray vs) \<Rightarrow> those (map as_WhatsAppMessage vs) | _ \<Rightarrow> None)"

definition as_ChatHistory :: "json \<Rightarrow> ChatHistory option" where
  "as_ChatHistory j =
     (case j of
        JObject kvs \<Rightarrow>
          do {
            c \<leftarrow> as_string (get_property kvs (js ''chatId''));
            ms \<leftarrow> as_messages (get_property kvs (js ''messages''));
            u \<leftarrow> as_integer (get_property kvs (js ''lastUpdated''));
            Some \<lparr>chatId = c, messages = ms, lastUpdated = u\<rparr>
          }
      | _ \<Rightarrow> None)"

text \<open>
  \<open>importChatHistory\<close>.  \<open>JSON.parse\<close> throws on text that is not JSON, and reading
  \<open>chatId\<close> of \<open>null\<close> throws; the \<open>catch\<close> branch returns \<open>false\<close>.  A number, a string,
  a boolean and an array have no \<open>chatId\<close> property, so the comparison with the target
  fails for them as it does for an object whose \<open>chatId\<close> is another value.  When the
  comparison succeeds the parsed object is stored as it is.  The result is \<open>None\<close> when that
  object is not a \<open>ChatHistory\<close>: the typed store of this model cannot hold it.
\<close>

definition importChatHistory ::
  "ChatHistoryService \<Rightarrow> jsstring \<Rightarrow> jsstring \<Rightarrow> (bool \<times> ChatHistoryService) option" where
  "importChatHistory s cid jsonData =
     (case JSON_parse jsonData of
        None \<Rightarrow> Some (False, s)
      | Some JNull \<Rightarrow> Some (False, s)
      | Some (JObject kvs) \<Rightarrow>
          if get_property kvs (js ''chatId'') \<noteq> Some (JString cid) then Some (False, s)
          else
            (case as_ChatHistory (JObject kvs) of
               None \<Rightarrow> None
             | Some chatHistory \<Rightarrow>
                 Some (True, s\<lparr>chatHistories := map_set (chatHistories s) cid chatHistory\<rparr>))
      | Some _ \<Rightarrow> Some (False, s))"

section \<open>Sequences of operations on the history store\<close>

text \<open>
  The operations that change a \<open>ChatHistoryService\<close>, applied in order from a fresh
  service.  The store states the program can be in are the results of such runs.
\<close>

datatype store_op =
    AddMessageOp int jsstring WhatsAppMessage
  | ClearChatHistoryOp jsstring
  | ImportChatHistoryOp jsstring jsstring
  | CleanupOldHistoriesOp int int

fun apply_op :: "ChatHistoryService \<Rightarrow> store_op \<Rightarrow> ChatHistoryService option" where
  "apply_op s (AddMessageOp now cid message) = Some (addMessage s now cid message)"
| "apply_op s (ClearChatHistoryOp cid) = Some (clearChatHistory s cid)"
| "apply_op s (ImportChatHistoryOp cid jsonData) = map_option snd (importChatHistory s cid jsonData)"
| "apply_op s (CleanupOldHistoriesOp now daysOld) = Some (fst (cleanupOldHistories s now daysOld))"

fun run_ops :: "ChatHistoryService \<Rightarrow> store_op list \<Rightarrow> ChatHistoryService option" where
  "run_ops s [] = Some s"
| "run_ops s (op # ops) = (case apply_op s op of None \<Rightarrow> None | Some s' \<Rightarrow> run_ops s' ops)"

section \<open>services/chatbot.service.ts\<close>

text \<open>
  \<open>handleIncomingMessage\<close> is an \<open>async\<close> method: it runs without interruption up to
  an \<open>await\<close>, and is resumed when the awaited call settles.  Between two such segments
  other handlers run.  An invocation that is suspended is recorded with the point where it
  waits and the values it holds there.
\<close>

datatype await_point =
    AwaitGenerate WhatsAppMessage
  | AwaitDelay WhatsAppMessage jsstring
  | AwaitSend WhatsAppMessage jsstring

text \<open>The calls the orchestrator makes to its collaborators, and the log line of a skip.\<close>

datatype effect =
    LogSkipping
  | SendMessageReceived WhatsAppMessage
  | AddMessage jsstring WhatsAppMessage
  | GetConversationContext jsstring
  | GenerateResponse jsstring "WhatsAppMessage list"
  | SendAIResponseGenerated jsstring
  | Delay int
  | SendMessage jsstring jsstring
  | SendMessageSent WhatsAppMessage
  | SendError

record ChatbotService =
  chatHistoryService :: ChatHistoryService
  isProcessing :: bool
  responseDelay :: int
  suspended :: "await_point list"
  effects :: "effect list"

definition new_ChatbotService :: "ChatHistoryService \<Rightarrow> int \<Rightarrow> ChatbotService" where
  "new_ChatbotService history delay =
     \<lparr>chatHistoryService = history, isProcessing = False, responseDelay = delay,
      suspended = [], effects = []\<rparr>"

text \<open>A call to a collaborator returns a value or throws.\<close>

datatype 'a outcome = Returns 'a | Throws

text \<open>
  What happens to the service: the transport delivers a message, or the call that the
  \<open>i\<close>-th suspended invocation awaits settles.  Each event carries the reading of
  \<open>Date.now()\<close> and the outcomes of the collaborator calls made while it is handled.
\<close>

datatype event =
    Incoming WhatsAppMessage int "unit outcome"
  | GenerateSettles nat "jsstring outcome" "unit outcome"
  | DelayElapses nat
  | SendSettles nat "bool outcome" int "unit outcome"

definition emit :: "ChatbotService \<Rightarrow> effect list \<Rightarrow> ChatbotService" where
  "emit s es = s\<lparr>effects := effects s @ es\<rparr>"

definition remove_at :: "nat \<Rightarrow> 'a list \<Rightarrow> 'a list" where
  "remove_at i xs = take i xs @ drop (Suc i) xs"

text \<open>The \<open>finally\<close> block, after which the invocation is over.\<close>

definition finally_block :: "ChatbotService \<Rightarrow> ChatbotService" where
  "finally_block s = s\<lparr>isProcessing := False\<rparr>"

text \<open>The \<open>catch\<close> block of \<open>handleIncomingMessage\<close>, followed by \<open>finally\<close>.\<close>

definition catch_block :: "ChatbotService \<Rightarrow> ChatbotService" where
  "catch_block s = finally_block (emit s [SendError])"

text \<open>
  The first segment: from the entry of \<open>handleIncomingMessage\<close> to the \<open>await\<close> of
  \<open>generateResponse\<close> inside \<open>processMessage\<close>.  The test of \<open>isProcessing\<close> stands before
  the \<open>try\<close>, so the early return does not pass through \<open>finally\<close>.
\<close>

definition handleIncomingMessage ::
  "ChatbotService \<Rightarrow> WhatsAppMessage \<Rightarrow> int \<Rightarrow> unit outcome \<Rightarrow> ChatbotService" where
  "handleIncomingMessage s message now received =
     (if isProcessing s then emit s [LogSkipping]
      else
        (let s1 = emit (s\<lparr>isProcessing := True\<rparr>) [SendMessageReceived message] in
         case received of
           Throws \<Rightarrow> catch_block s1
         | Returns _ \<Rightarrow>
             (let s2 = emit (s1\<lparr>chatHistoryService :=
                               addMessage (chatHistoryService s1) now (to_m message) message\<rparr>)
                         [AddMessage (to_m message) message];
                  chatHistory = getConversationContext (chatHistoryService s2) (to_m message) 10;
                  s3 = emit s2 [GetConversationContext (to_m message),
                                GenerateResponse (content message) chatHistory]
              in s3\<lparr>suspended := suspended s3 @ [AwaitGenerate message]\<rparr>)))"

text \<open>
  The second segment: \<open>generateResponse\<close> has settled.  \<open>processMessage\<close> turns a throw,
  also one of \<open>sendAIResponseGenerated\<close>, into a result without success.  With a success and
  a response that is not empty the handler starts the delay; otherwise it reports the
  error and ends.
\<close>

definition after_generate ::
  "ChatbotService \<Rightarrow> nat \<Rightarrow> WhatsAppMessage \<Rightarrow> jsstring outcome \<Rightarrow> unit outcome \<Rightarrow> ChatbotService" where
  "after_generate s i message generated announced =
     (let (s1, response) =
            (case generated of
               Throws \<Rightarrow> (s, None)
             | Returns text \<Rightarrow>
                 (let s' = emit s [SendAIResponseGenerated text] in
                  case announced of Throws \<Rightarrow> (s', None) | Returns _ \<Rightarrow> (s', Some text)))
      in case response of
           Some text \<Rightarrow>
             if truthy text
             then (emit s1 [Delay (responseDelay s1)])
                    \<lparr>suspended := (suspended s1)[i := AwaitDelay message text]\<rparr>
             else (finally_block (emit s1 [SendError]))
                    \<lparr>suspended := remove_at i (suspended s1)\<rparr>
         | None \<Rightarrow>
             (finally_block (emit s1 [SendError]))
               \<lparr>suspended := remove_at i (suspended s1)\<rparr>)"

text \<open>The third segment: the delay is over and \<open>sendMessage\<close> is called.\<close>

definition after_delay :: "ChatbotService \<Rightarrow> nat \<Rightarrow> WhatsAppMessage \<Rightarrow> jsstring \<Rightarrow> ChatbotService" where
  "after_delay s i message response =
     (emit s [SendMessage (from_m message) response])
       \<lparr>suspended := (suspended s)[i := AwaitSend message response]\<rparr>"

text \<open>
  The last segment: \<open>sendMessage\<close> has settled.  \<open>message.groupId || undefined\<close> turns an
  empty group id into \<open>undefined\<close>.
\<close>

definition botMessage :: "WhatsAppMessage \<Rightarrow> jsstring \<Rightarrow> int \<Rightarrow> WhatsAppMessage" where
  "botMessage message response now =
     \<lparr>id_m = js ''bot-'' @ NumberToString now,
      from_m = to_m message,
      to_m = from_m message,
      timestamp = now,
      type_m = Text,
      content = response,
      isGroup = isGroup message,
      groupId = (case groupId message of None \<Rightarrow> None | Some g \<Rightarrow> if truthy g then Some g else None),
      senderName = Some (js ''AI Assistant'')\<rparr>"

definition after_send ::
  "ChatbotService \<Rightarrow> nat \<Rightarrow> WhatsAppMessage \<Rightarrow> jsstring \<Rightarrow> bool outcome \<Rightarrow> int \<Rightarrow> unit outcome
     \<Rightarrow> ChatbotService" where
  "after_send s i message response sent now announced =
     (let s1 =
            (case sent of
               Throws \<Rightarrow> catch_block s
             | Returns False \<Rightarrow> finally_block s
             | Returns True \<Rightarrow>
                 (let b = botMessage message response now;
                      s' = emit (s\<lparr>chatHistoryService :=
                                    addMessage (chatHistoryService s) now (to_m message) b\<rparr>)
                             [AddMessage (to_m message) b, SendMessageSent b]
                  in case announced of Throws \<Rightarrow> catch_block s' | Returns _ \<Rightarrow> finally_block s'))
      in s1\<lparr>suspended := remove_at i (suspended s1)\<rparr>)"

text \<open>An event that names no suspended invocation, or one that waits elsewhere, cannot occur.\<close>

fun step :: "ChatbotService \<Rightarrow> event \<Rightarrow> ChatbotService" where
  "step s (Incoming message now received) = handleIncomingMessage s message now received"
| "step s (GenerateSettles i generated announced) =
     (if i < length (suspended s)
      then (case suspended s ! i of
              AwaitGenerate message \<Rightarrow> after_generate s i message generated announced
            | _ \<Rightarrow> s)
      else s)"
| "step s (DelayElapses i) =
     (if i < length (suspended s)
      then (case suspended s ! i of
              AwaitDelay message response \<Rightarrow> after_delay s i message response
            | _ \<Rightarrow> s)
      else s)"
| "step s (SendSettles i sent now announced) =
     (if i < length (suspended s)
      then (case suspended s ! i of
              AwaitSend message response \<Rightarrow> after_send s i message response sent now announced
            | _ \<Rightarrow> s)
      else s)"

definition run :: "ChatbotService \<Rightarrow> event list \<Rightarrow> ChatbotService" where
  "run s evs = foldl step s evs"

section \<open>Notions used in the statements and proofs\<close>

text \<open>
  \<open>lastN n xs\<close> is the last \<open>n\<close> elements of \<open>xs\<close>, or all of them; \<open>appendAll\<close> is a
  sequence of \<open>addMessage\<close> calls on one conversation.  \<open>reads t v\<close> says that the parser,
  given the text \<open>t\<close> followed by a comma, a line feed or nothing, returns the value \<open>v\<close>
  and stops behind \<open>t\<close>.  \<open>json_of_history h\<close> is the value that the exported text of \<open>h\<close>
  denotes.  \<open>single_flight\<close> and \<open>store_ok\<close> are the invariants of the orchestrator and of
  the store.  The \<open>example\<close> constants are the concrete inputs of the witnesses.
\<close>

definition lastN :: "nat \<Rightarrow> 'a list \<Rightarrow> 'a list" where
  "lastN n xs = drop (length xs - n) xs"

fun appendAll :: "ChatHistoryService \<Rightarrow> jsstring \<Rightarrow> (int \<times> WhatsAppMessage) list \<Rightarrow> ChatHistoryService" where
  "appendAll s cid [] = s"
| "appendAll s cid ((now, m) # rest) = appendAll (addMessage s now cid m) cid rest"

definition cons_result :: "code_unit \<Rightarrow> (jsstring \<times> jsstring) option \<Rightarrow> (jsstring \<times> jsstring) option" where
  "cons_result c x = (case x of None \<Rightarrow> None | Some (s, r) \<Rightarrow> Some (c # s, r))"

definition delimited :: "jsstring \<Rightarrow> bool" where
  "delimited rest \<longleftrightarrow> (case rest of [] \<Rightarrow> True | c # _ \<Rightarrow> c = 0x2C \<or> c = 0x0A)"

definition reads :: "jsstring \<Rightarrow> json \<Rightarrow> bool" where
  "reads t v \<longleftrightarrow> (\<forall>rest. delimited rest \<longrightarrow> parse_value (t @ rest) = Some (v, rest))"

definition starts_value :: "jsstring \<Rightarrow> bool" where
  "starts_value t \<longleftrightarrow> (case t of [] \<Rightarrow> False | c # _ \<Rightarrow> \<not> is_ws c \<and> c \<noteq> 0x5D)"

definition json_of_message :: "WhatsAppMessage \<Rightarrow> json" where
  "json_of_message m =
     JObject
       ([(js ''id'', JString (id_m m)),
         (js ''from'', JString (from_m m)),
         (js ''to'', JString (to_m m)),
         (js ''timestamp'', JNumber (of_int (timestamp m))),
         (js ''type'', JString (type_string (type_m m))),
         (js ''content'', JString (content m)),
         (js ''isGroup'', JBoolean (isGroup m))]
        @ (case groupId m of None \<Rightarrow> [] | Some g \<Rightarrow> [(js ''groupId'', JString g)])
        @ (case senderName m of None \<Rightarrow> [] | Some n \<Rightarrow> [(js ''senderName'', JString n)]))"

definition json_of_history :: "ChatHistory \<Rightarrow> json" where
  "json_of_history h =
     JObject
       [(js ''chatId'', JString (chatId h)),
        (js ''messages'', JArray (map json_of_message (messages h))),
        (js ''lastUpdated'', JNumber (of_int (lastUpdated h)))]"


definition store_ok :: "ChatHistoryService \<Rightarrow> bool" where
  "store_ok s \<longleftrightarrow>
     distinct (map fst (chatHistories s)) \<and> (\<forall>(k, h)\<in>set (chatHistories s). chatId h = k)"

definition example_message :: "string \<Rightarrow> string \<Rightarrow> string \<Rightarrow> WhatsAppMessage" where
  "example_message i f c =
     \<lparr>id_m = js i, from_m = js f, to_m = js ''15550001111@s.whatsapp.net'',
      timestamp = 1700000000000, type_m = Text, content = js c, isGroup = False,
      groupId = None, senderName = None\<rparr>"

definition example_history :: "WhatsAppMessage list" where
  "example_history =
     [example_message ''1'' ''15550002222@g.us'' ''one'',
      example_message ''2'' ''15550001111@s.whatsapp.net'' ''two'',
      example_message ''3'' ''15550002222@g.us'' ''three'',
      example_message ''4'' ''15550001111@s.whatsapp.net'' ''four'',
      example_message ''5'' ''15550002222@g.us'' [],
      example_message ''6'' ''15550001111@s.whatsapp.net'' ''six'',
      example_message ''7'' ''15550002222@g.us'' ''seven'',
      example_message ''8'' ''15550001111@s.whatsapp.net'' ''eight'',
      example_message ''9'' ''15550002222@g.us'' ''nine'',
      example_message ''10'' ''15550001111@s.whatsapp.net'' ''ten'',
      example_message ''11'' ''15550002222@g.us'' ''eleven'',
      example_message ''12'' ''15550001111@s.whatsapp.net'' ''twelve'']"

definition group_message :: WhatsAppMessage where
  "group_message =
     \<lparr>id_m = js ''3EB0A1'', from_m = js ''15550002222@s.whatsapp.net'',
      to_m = js ''120363000000000001@g.us'', timestamp = 1700000000000, type_m = Text,
      content = js ''hello'', isGroup = True, groupId = Some (js ''120363000000000001@g.us''),
      senderName = Some (js ''Ann'')\<rparr>"

definition private_message :: WhatsAppMessage where
  "private_message =
     \<lparr>id_m = js ''3EB0A2'', from_m = js ''15550002222@s.whatsapp.net'',
      to_m = js ''15550002222@s.whatsapp.net'', timestamp = 1700000000000, type_m = Text,
      content = js ''hello'', isGroup = False, groupId = None,
      senderName = Some (js ''Ann'')\<rparr>"

definition exchange :: "WhatsAppMessage \<Rightarrow> ChatbotService" where
  "exchange m =
     run (new_ChatbotService (new_ChatHistoryService 50) 1000)
       [Incoming m 1000 (Returns ()),
        GenerateSettles 0 (Returns (js ''hi there'')) (Returns ()),
        DelayElapses 0,
        SendSettles 0 (Returns True) 2000 (Returns ())]"

definition example_topics_history :: "WhatsAppMessage list" where
  "example_topics_history =
     [example_message ''1'' ''15550002222@g.us'' ''Hello  the WORLD'',
      example_message ''2'' ''15550001111@s.whatsapp.net'' ''without about tests more words here and there'']"

definition example_store :: ChatHistoryService where
  "example_store =
     addMessage
       (addMessage (new_ChatHistoryService 50) 1000 (js ''chatA'') (example_message ''A'' ''u'' ''a''))
       200000000 (js ''chatB'') (example_message ''B'' ''u'' ''b'')"

definition example_chatB :: ChatHistory where
  "example_chatB =
     \<lparr>chatId = js ''chatB'',
      messages = [example_message ''B1'' ''u'' ''one'', example_message ''B2'' ''u'' ''two''],
      lastUpdated = 5\<rparr>"


section \<open>Properties of the history store\<close>

lemma map_get_map_set: "map_get (map_set m k v) k' = (if k' = k then Some v else map_get m k')"
  by (induction m) (auto simp: map_get_def)

lemma keys_map_set:
  "map fst (map_set m k v) = (if k \<in> fst ` set m then map fst m else map fst m @ [k])"
  by (induction m) (force simp: image_iff)+

lemma distinct_map_set: "distinct (map fst m) \<Longrightarrow> distinct (map fst (map_set m k v))"
  by (simp add: keys_map_set)

lemma map_delete_filter:
  "distinct (map fst m) \<Longrightarrow> map_delete m k = filter (\<lambda>e. fst e \<noteq> k) m"
proof (induction m)
  case Nil
  then show ?case by simp
next
  case (Cons e m)
  obtain k' v' where e: "e = (k', v')" by (cases e)
  show ?case
  proof (cases "k' = k")
    case True
    with Cons.prems e have "\<forall>x\<in>set m. fst x \<noteq> k" by auto
    then have "filter (\<lambda>e. fst e \<noteq> k) m = m" by (simp add: filter_id_conv)
    with True e show ?thesis by simp
  next
    case False
    with Cons e show ?thesis by simp
  qed
qed

lemma distinct_map_delete: "distinct (map fst m) \<Longrightarrow> distinct (map fst (map_delete m k))"
  by (simp add: map_delete_filter distinct_map_filter)

lemma map_get_map_delete:
  "distinct (map fst m) \<Longrightarrow> map_get (map_delete m k) k' = (if k' = k then None else map_get m k')"
  by (induction m) (auto simp: map_delete_filter map_get_def map_of_eq_None_iff image_iff)

lemma slice_from_neg: "0 < n \<Longrightarrow> slice_from (- n) xs = drop (length xs - nat n) xs"
  by (auto simp: slice_from_def Let_def max_def nat_diff_distrib' intro: arg_cong[where f="\<lambda>k. drop k xs"])

lemma slice_from_zero: "slice_from (- 0) xs = xs"
  by (simp add: slice_from_def)

lemma getChatHistory_addMessage:
  "getChatHistory (addMessage s now cid m) cid =
     (let pushed = getChatHistory s cid @ [m] in
      if int (length pushed) > maxHistoryLength s then slice_from (- maxHistoryLength s) pushed else pushed)"
  by (auto simp: getChatHistory_def addMessage_def Let_def map_get_map_set split: option.splits)

lemma lastN_rev: "lastN n xs = rev (take n (rev xs))"
  by (simp add: lastN_def take_rev)

lemma lastN_lastN_append: "lastN n (lastN n xs @ ys) = lastN n (xs @ ys)"
  by (simp add: lastN_rev min_def)

lemma addMessage_lastN:
  assumes "1 \<le> maxHistoryLength s"
  shows "getChatHistory (addMessage s now cid m) cid = lastN (nat (maxHistoryLength s)) (getChatHistory s cid @ [m])"
  using assms by (auto simp: getChatHistory_addMessage Let_def slice_from_neg lastN_def)

lemma maxHistoryLength_addMessage [simp]: "maxHistoryLength (addMessage s now cid m) = maxHistoryLength s"
  by (simp add: addMessage_def Let_def)

lemma appendAll_lastN:
  "1 \<le> maxHistoryLength s \<Longrightarrow> length (getChatHistory s cid) \<le> nat (maxHistoryLength s) \<Longrightarrow>
   getChatHistory (appendAll s cid calls) cid = lastN (nat (maxHistoryLength s)) (getChatHistory s cid @ map snd calls)
   \<and> maxHistoryLength (appendAll s cid calls) = maxHistoryLength s"
proof (induction calls arbitrary: s)
  case Nil
  then show ?case by (simp add: lastN_def)
next
  case (Cons c calls)
  obtain now m where c: "c = (now, m)" by (cases c)
  let ?s = "addMessage s now cid m"
  let ?L = "nat (maxHistoryLength s)"
  have h: "getChatHistory ?s cid = lastN ?L (getChatHistory s cid @ [m])"
    using Cons.prems by (simp add: addMessage_lastN)
  have len: "length (getChatHistory ?s cid) \<le> nat (maxHistoryLength ?s)"
    by (simp add: h lastN_def)
  have L: "1 \<le> maxHistoryLength ?s" using Cons.prems by simp
  from Cons.IH[OF L len]
  have "getChatHistory (appendAll ?s cid calls) cid = lastN ?L (lastN ?L (getChatHistory s cid @ [m]) @ map snd calls)"
    and "maxHistoryLength (appendAll ?s cid calls) = maxHistoryLength s"
    by (simp_all add: h)
  moreover have "lastN ?L (lastN ?L (getChatHistory s cid @ [m]) @ map snd calls) = lastN ?L (getChatHistory s cid @ m # map snd calls)"
    using lastN_lastN_append[of ?L "getChatHistory s cid @ [m]" "map snd calls"] by simp
  ultimately show ?case by (simp add: c)
qed

lemma cleanup_loop_filter:
  "distinct (map fst m) \<Longrightarrow>
   cleanup_loop c entries m n =
     (filter (\<lambda>e. fst e \<notin> fst ` {x \<in> set entries. lastUpdated (snd x) < c}) m,
      n + length (filter (\<lambda>e. lastUpdated (snd e) < c) entries))"
proof (induction entries arbitrary: m n)
  case Nil
  then show ?case by simp
next
  case (Cons e entries)
  obtain k h where e: "e = (k, h)" by (cases e)
  show ?case
  proof (cases "lastUpdated h < c")
    case True
    have d: "distinct (map fst (map_delete m k))"
      using Cons.prems by (rule distinct_map_delete)
    have "{x \<in> set (e # entries). lastUpdated (snd x) < c} =
            insert e {x \<in> set entries. lastUpdated (snd x) < c}"
      using True e by auto
    then show ?thesis
      using True e Cons.IH[OF d] Cons.prems
      by (simp add: map_delete_filter conj_commute)
  next
    case False
    have "{x \<in> set (e # entries). lastUpdated (snd x) < c} =
            {x \<in> set entries. lastUpdated (snd x) < c}"
      using False e by auto
    then show ?thesis
      using False e Cons.IH[OF Cons.prems] by simp
  qed
qed

lemma distinct_key_old:
  assumes "distinct (map fst m)" "e \<in> set m"
  shows "fst e \<in> fst ` {x \<in> set m. P x} \<longleftrightarrow> P e"
proof
  assume "fst e \<in> fst ` {x \<in> set m. P x}"
  then obtain x where x: "x \<in> set m" "P x" "fst x = fst e" by auto
  from assms x have "snd x = snd e"
    by (cases x, cases e) (auto dest: eq_key_imp_eq_value)
  with x have "x = e" by (simp add: prod_eq_iff)
  with x show "P e" by simp
next
  assume "P e" with assms show "fst e \<in> fst ` {x \<in> set m. P x}" by auto
qed

lemma cleanup_loop_whole:
  assumes "distinct (map fst m)"
  shows "cleanup_loop c m m 0 =
     (filter (\<lambda>e. \<not> lastUpdated (snd e) < c) m, length (filter (\<lambda>e. lastUpdated (snd e) < c) m))"
proof -
  have "filter (\<lambda>e. fst e \<notin> fst ` {x \<in> set m. lastUpdated (snd x) < c}) m
        = filter (\<lambda>e. \<not> lastUpdated (snd e) < c) m"
    by (rule filter_cong) (simp_all add: distinct_key_old[OF assms])
  then show ?thesis
    by (simp add: cleanup_loop_filter[OF assms])
qed

lemma cleanupOldHistories_filter:
  assumes "distinct (map fst (chatHistories s))"
  shows "cleanupOldHistories s now daysOld =
     (s\<lparr>chatHistories := filter (\<lambda>e. \<not> lastUpdated (snd e) < now - daysOld * 86400000) (chatHistories s)\<rparr>,
      length (filter (\<lambda>e. lastUpdated (snd e) < now - daysOld * 86400000) (chatHistories s)))"
  unfolding cleanupOldHistories_def Let_def cleanup_loop_whole[OF assms]
  by (simp add: mult.commute)

text \<open>
  C9.  For a chat id that has no entry in the store, \<open>getChatHistoryStats\<close> returns a
  result (the model has no error branch there, as the code has none) whose three fields are
  zero, \<open>null\<close> and zero.
\<close>

theorem C9_stats_unknown_chat:
  "map_get (chatHistories s) cid = None \<Longrightarrow>
   getChatHistoryStats s cid =
     \<lparr>totalMessages = 0, lastMessageTime = None, averageMessageLength = 0\<rparr>"
  by (simp add: getChatHistoryStats_def getChatHistory_def)

theorem C9_stats_unknown_chat_witness:
  "map_get (chatHistories (new_ChatHistoryService 50)) (js ''unknown'') = None \<and>
   getChatHistoryStats (new_ChatHistoryService 50) (js ''unknown'') =
     \<lparr>totalMessages = 0, lastMessageTime = None, averageMessageLength = 0\<rparr>"
proof -
  have h: "map_get (chatHistories (new_ChatHistoryService 50)) (js ''unknown'') = None"
    by (simp add: new_ChatHistoryService_def map_get_def)
  show ?thesis
    using h C9_stats_unknown_chat [OF h] by simp
qed

section \<open>Properties of the context builder\<close>

lemma dropWhile_all: "(\<forall>x\<in>set (dropWhile P xs). P x) \<longleftrightarrow> (\<forall>x\<in>set xs. P x)"
proof
  assume a: "\<forall>x\<in>set (dropWhile P xs). P x"
  have "dropWhile P xs = []"
  proof (rule ccontr)
    assume n: "dropWhile P xs \<noteq> []"
    then have "\<not> P (hd (dropWhile P xs))" by (rule hd_dropWhile)
    moreover from n have "hd (dropWhile P xs) \<in> set (dropWhile P xs)" by simp
    ultimately show False using a by blast
  qed
  then show "\<forall>x\<in>set xs. P x" by (simp add: dropWhile_eq_Nil_conv)
next
  assume "\<forall>x\<in>set xs. P x"
  then show "\<forall>x\<in>set (dropWhile P xs). P x" by (simp add: dropWhile_eq_Nil_conv[THEN iffD2])
qed

lemma truthy_trim: "truthy (trim s) \<longleftrightarrow> (\<exists>c\<in>set s. \<not> is_trimmed_unit c)"
proof -
  have "trim s = [] \<longleftrightarrow> (\<forall>x\<in>set (dropWhile is_trimmed_unit s). is_trimmed_unit x)"
    by (simp add: trim_def dropWhile_eq_Nil_conv)
  then show ?thesis by (auto simp: truthy_def dropWhile_all)
qed

lemma context_loop_eq:
  "context_loop msgs ctx =
     ctx @ map (\<lambda>m. \<lparr>role = (if includes_js (from_m m) (js ''@s.whatsapp.net'') then Assistant else User), content_c = content m\<rparr>)
           (filter (\<lambda>m. \<exists>c \<in> set (content m). \<not> is_trimmed_unit c) msgs)"
  by (induction msgs arbitrary: ctx) (simp_all add: Let_def truthy_trim)

lemma words_loop_eq: "words_loop ws topics = topics @ filter (\<lambda>w. length w > 3 \<and> \<not> isCommonWord w) ws"
  by (induction ws arbitrary: topics) auto

lemma topics_loop_eq:
  "topics_loop lower msgs topics =
     topics @ concat (map (\<lambda>m. filter (\<lambda>w. length w > 3 \<and> \<not> isCommonWord w) (split (lower (content m)) 0x20)) msgs)"
  by (induction msgs arbitrary: topics) (simp_all add: words_loop_eq)

lemma slice_range_0: "0 \<le> n \<Longrightarrow> slice_range 0 n xs = take (nat n) xs"
  by (auto simp: slice_range_def Let_def min_def)

lemma extractContext_props:
  "length (extractContext lower h) \<le> 5 \<and>
   (\<forall>t \<in> set (extractContext lower h). length t > 3 \<and> t \<notin> set commonWords)"
proof -
  have "set (extractContext lower h) \<subseteq> set (topics_loop lower (slice_from (- 5) h) [])"
    by (simp add: extractContext_def slice_range_0 set_take_subset)
  also have "\<dots> \<subseteq> {w. length w > 3 \<and> \<not> isCommonWord w}"
    by (auto simp: topics_loop_eq)
  finally show ?thesis
    by (auto simp: extractContext_def slice_range_0 isCommonWord_def)
qed

section \<open>The parser reads back what the serializer writes\<close>

lemma unat_digit_unit: "n < 10 \<Longrightarrow> unat (0x30 + word_of_nat n :: code_unit) = 48 + n"
  by (simp add: unat_word_ariths unat_of_nat)

lemma unat_letter_unit: "n < 6 \<Longrightarrow> unat (0x61 + word_of_nat n :: code_unit) = 97 + n"
  by (simp add: unat_word_ariths unat_of_nat)

lemma unat_small_sum: "n < 1000 \<Longrightarrow> unat (word_of_nat n :: code_unit) = n"
  by (simp add: unat_of_nat)

lemma hex_value_hex_unit: "n < 16 \<Longrightarrow> hex_value (hex_unit n) = Some n"
proof (cases "n < 10")
  case True
  then show ?thesis
    by (simp add: hex_value_def hex_unit_def word_le_nat_alt unat_digit_unit)
next
  case False
  assume "n < 16"
  with False have "n - 10 < 6" by simp
  then have "unat (0x61 + word_of_nat (n - 10) :: code_unit) = 97 + (n - 10)"
    by (rule unat_letter_unit)
  with False \<open>n < 16\<close> show ?thesis
    unfolding hex_value_def hex_unit_def word_le_nat_alt
    by simp
qed

lemma hex_recompose:
  "((x div 4096 * 16 + x div 256 mod 16) * 16 + x div 16 mod 16) * 16 + x mod 16 = (x::nat)"
proof -
  have a: "x div 4096 = x div 256 div 16" by (simp add: div_mult2_eq[symmetric])
  have b: "x div 256 = x div 16 div 16" by (simp add: div_mult2_eq[symmetric])
  have "x div 4096 * 16 + x div 256 mod 16 = x div 256"
    unfolding a by (rule div_mult_mod_eq)
  moreover have "x div 256 * 16 + x div 16 mod 16 = x div 16"
    unfolding b by (rule div_mult_mod_eq)
  moreover have "x div 16 * 16 + x mod 16 = x"
    by (rule div_mult_mod_eq)
  ultimately show ?thesis by simp
qed

lemma hex4_UnicodeEscape:
  "hex4 (hex_unit (unat c div 4096)) (hex_unit (unat c div 256 mod 16))
        (hex_unit (unat c div 16 mod 16)) (hex_unit (unat c mod 16)) = Some (c :: code_unit)"
proof -
  have lt: "unat c < 65536" using unsigned_less [of c] by simp
  then have a: "unat c div 4096 < 16" by simp
  have b: "hex_value (hex_unit (unat c div 4096)) = Some (unat c div 4096)"
    using a by (rule hex_value_hex_unit)
  have c: "hex_value (hex_unit (unat c div 256 mod 16)) = Some (unat c div 256 mod 16)"
    by (rule hex_value_hex_unit) simp
  have d: "hex_value (hex_unit (unat c div 16 mod 16)) = Some (unat c div 16 mod 16)"
    by (rule hex_value_hex_unit) simp
  have e: "hex_value (hex_unit (unat c mod 16)) = Some (unat c mod 16)"
    by (rule hex_value_hex_unit) simp
  show ?thesis
    unfolding hex4_def b c d e
    by (simp only: prod.case option.case hex_recompose) simp
qed

lemma string_chars_literal:
  "c \<noteq> 0x22 \<Longrightarrow> c \<noteq> 0x5C \<Longrightarrow> \<not> c < 0x20 \<Longrightarrow>
   string_chars (c # rest) = cons_result c (string_chars rest)"
  by (simp add: cons_result_def)

lemma string_chars_escape:
  "e \<noteq> 0x75 \<Longrightarrow> unescape e = Some c \<Longrightarrow>
   string_chars (0x5C # e # rest) = cons_result c (string_chars rest)"
  by (simp add: cons_result_def)

lemma string_chars_unicode:
  "string_chars (UnicodeEscape c @ rest) = cons_result c (string_chars rest)"
  by (simp add: UnicodeEscape_def hex4_UnicodeEscape cons_result_def)

lemma string_chars_quote_unit:
  "string_chars (quote_unit c @ rest) = cons_result c (string_chars rest)"
  unfolding quote_unit_def
  by (auto simp: string_chars_unicode string_chars_escape unescape_def string_chars_literal
      simp del: string_chars.simps)

lemma surrogate_literal:
  "is_leading_surrogate c \<or> is_trailing_surrogate c \<Longrightarrow> c \<noteq> 0x22 \<and> c \<noteq> 0x5C \<and> \<not> c < 0x20"
  by (auto simp: is_leading_surrogate_def is_trailing_surrogate_def word_le_nat_alt word_less_nat_alt)

lemma string_chars_quote_units:
  "string_chars (quote_units s @ 0x22 # rest) = Some (s, rest)"
proof (induction s rule: quote_units.induct)
  case 1
  show ?case by simp
next
  case (2 c)
  show ?case by (simp add: string_chars_quote_unit cons_result_def del: string_chars.simps) simp
next
  case (3 c d s)
  show ?case
  proof (cases "is_leading_surrogate c \<and> is_trailing_surrogate d")
    case True
    then have c: "c \<noteq> 0x22 \<and> c \<noteq> 0x5C \<and> \<not> c < 0x20"
      and d: "d \<noteq> 0x22 \<and> d \<noteq> 0x5C \<and> \<not> d < 0x20"
      using surrogate_literal by blast+
    from True have "quote_units (c # d # s) = c # d # quote_units s" by simp
    then show ?thesis
      using c d 3(1)[OF True]
      by (simp add: string_chars_literal cons_result_def del: string_chars.simps)
  next
    case False
    then have "quote_units (c # d # s) = quote_unit c @ quote_units (d # s)" by auto
    then show ?thesis
      using 3(2)[OF False]
      by (simp add: string_chars_quote_unit cons_result_def del: string_chars.simps)
  qed
qed

lemma is_digit_unit: "n < 10 \<Longrightarrow> is_digit (0x30 + word_of_nat n)"
  by (simp add: is_digit_def word_le_nat_alt unat_digit_unit)

lemma digits_all: "c \<in> set (digits n) \<Longrightarrow> is_digit c"
proof (induction n arbitrary: c rule: digits.induct)
  case (1 n)
  show ?case
  proof (cases "n < 10")
    case True
    with 1(2) show ?thesis by (simp add: digits.simps[of n] is_digit_unit)
  next
    case False
    with 1 show ?thesis
      by (auto simp: digits.simps[of n] is_digit_unit)
  qed
qed

lemma digits_nonempty: "digits n \<noteq> []"
  by (simp add: digits.simps[of n])

lemma digits_value_snoc: "digits_value (ds @ [d]) = 10 * digits_value ds + (unat d - 48)"
  by (simp add: digits_value_def)

lemma digits_value_digits: "digits_value (digits n) = n"
proof (induction n rule: digits.induct)
  case (1 n)
  show ?case
  proof (cases "n < 10")
    case True
    then show ?thesis by (simp add: digits.simps[of n] digits_value_def unat_digit_unit)
  next
    case False
    then have "digits n = digits (n div 10) @ [0x30 + word_of_nat (n mod 10)]"
      by (simp add: digits.simps[of n])
    with 1[OF False] show ?thesis
      by (simp add: digits_value_snoc unat_digit_unit)
  qed
qed

lemma hd_digits: "hd (digits n) = 0x30 \<Longrightarrow> n = 0"
proof (induction n rule: digits.induct)
  case (1 n)
  show ?case
  proof (cases "n < 10")
    case True
    with 1(2) have "unat (0x30 + word_of_nat n :: code_unit) = unat (0x30 :: code_unit)"
      by (simp add: digits.simps[of n])
    with True show ?thesis by (simp add: unat_digit_unit)
  next
    case False
    then have "digits n = digits (n div 10) @ [0x30 + word_of_nat (n mod 10)]"
      by (simp add: digits.simps[of n])
    with 1(2) have "hd (digits (n div 10)) = 0x30" by (simp add: digits_nonempty)
    with 1(1)[OF False] have "n div 10 = 0" by simp
    with False show ?thesis by simp
  qed
qed

lemma length_digits_0: "length (digits 0) = 1"
  by (simp add: digits.simps[of 0])

lemma delimited_not_digit: "delimited rest \<Longrightarrow> takeWhile is_digit rest = [] \<and> dropWhile is_digit rest = rest"
  by (cases rest) (auto simp: delimited_def is_digit_def)

lemma takeWhile_digits: "delimited rest \<Longrightarrow> takeWhile is_digit (digits n @ rest) = digits n"
  using digits_all by (simp add: takeWhile_append2 delimited_not_digit)

lemma dropWhile_digits: "delimited rest \<Longrightarrow> dropWhile is_digit (digits n @ rest) = rest"
  using digits_all by (simp add: dropWhile_append2 delimited_not_digit)

lemma parse_fraction_delimited: "delimited rest \<Longrightarrow> parse_fraction rest = Some ([], rest)"
  by (cases rest) (auto simp: parse_fraction_def delimited_def)

lemma parse_exponent_delimited: "delimited rest \<Longrightarrow> parse_exponent rest = Some (0, rest)"
  by (cases rest) (auto simp: parse_exponent_def delimited_def)

lemma parse_digits:
  assumes "delimited rest"
  shows "takeWhile is_digit (digits n @ rest) \<noteq> [] \<and>
         \<not> (length (takeWhile is_digit (digits n @ rest)) > 1 \<and> hd (takeWhile is_digit (digits n @ rest)) = 0x30)"
proof -
  have "length (digits n) > 1 \<Longrightarrow> hd (digits n) = 0x30 \<Longrightarrow> False"
    using hd_digits[of n] length_digits_0 by auto
  then show ?thesis
    using assms by (auto simp: takeWhile_digits digits_nonempty)
qed

lemma hd_digits_not_minus: "hd (digits n @ rest) \<noteq> 0x2D"
proof -
  have "hd (digits n) \<in> set (digits n)" by (simp add: digits_nonempty)
  then have "is_digit (hd (digits n))" by (rule digits_all)
  then show ?thesis by (auto simp: digits_nonempty is_digit_def)
qed

lemma parse_sign_digits: "parse_sign (digits n @ rest) = (False, digits n @ rest)"
  using hd_digits_not_minus[of n rest] digits_nonempty[of n]
  by (cases "digits n @ rest") (auto simp: parse_sign_def)

lemma parse_number_NumberToString:
  assumes "delimited rest"
  shows "parse_number (NumberToString n @ rest) = Some (of_int n, rest)"
proof (cases "n < 0")
  case True
  have s: "parse_sign (NumberToString n @ rest) = (True, digits (nat (- n)) @ rest)"
    using True by (simp add: NumberToString_def parse_sign_def)
  show ?thesis
    unfolding parse_number_def s
    using parse_digits[OF assms, of "nat (- n)"] True
    by (simp add: takeWhile_digits[OF assms] dropWhile_digits[OF assms]
        parse_fraction_delimited[OF assms] parse_exponent_delimited[OF assms] digits_value_digits Let_def)
next
  case False
  have s: "parse_sign (NumberToString n @ rest) = (False, digits (nat n) @ rest)"
    using False by (simp add: NumberToString_def parse_sign_digits)
  show ?thesis
    unfolding parse_number_def s
    using parse_digits[OF assms, of "nat n"] False
    by (simp add: takeWhile_digits[OF assms] dropWhile_digits[OF assms]
        parse_fraction_delimited[OF assms] parse_exponent_delimited[OF assms] digits_value_digits Let_def)
qed

lemma skip_ws_nonws: "\<not> is_ws c \<Longrightarrow> skip_ws (c # cs) = c # cs"
  by (simp add: skip_ws_def)

lemma skip_ws_ws: "is_ws c \<Longrightarrow> skip_ws (c # cs) = skip_ws cs"
  by (simp add: skip_ws_def)

lemma skip_ws_indent: "skip_ws (indent n @ cs) = skip_ws cs"
  by (induction n) (simp_all add: indent_def skip_ws_def is_ws_def)

lemma skip_ws_idem: "skip_ws (skip_ws cs) = skip_ws cs"
  by (simp add: skip_ws_def)

lemma parse_value_skip: "parse_value (skip_ws cs) = parse_value cs"
  by (subst parse_value.simps, subst parse_value.simps) (simp only: skip_ws_idem)

lemma parse_value_ws: "is_ws c \<Longrightarrow> parse_value (c # cs) = parse_value cs"
  using parse_value_skip[of "c # cs"] parse_value_skip[of cs] by (simp add: skip_ws_ws)

lemma parse_value_string: "parse_value (QuoteJSONString s @ rest) = Some (JString s, rest)"
  by (subst parse_value.simps)
    (simp add: QuoteJSONString_def skip_ws_nonws is_ws_def string_chars_quote_units
      del: string_chars.simps)

lemma reads_string: "reads (QuoteJSONString s) (JString s)"
  by (simp add: reads_def parse_value_string)

lemma reads_true: "reads (js ''true'') (JBoolean True)"
  unfolding reads_def
  by (subst parse_value.simps) (simp add: js_def skip_ws_nonws is_ws_def)

lemma reads_false: "reads (js ''false'') (JBoolean False)"
  unfolding reads_def
  by (subst parse_value.simps) (simp add: js_def skip_ws_nonws is_ws_def)

lemma NumberToString_head:
  "\<exists>c r. NumberToString n @ rest = c # r \<and> (c = 0x2D \<or> is_digit c)"
proof (cases "n < 0")
  case True
  then show ?thesis by (simp add: NumberToString_def)
next
  case False
  obtain c r where cr: "digits (nat n) = c # r"
    using digits_nonempty[of "nat n"] by (cases "digits (nat n)") auto
  then have "is_digit c" using digits_all[of c "nat n"] by simp
  with False cr show ?thesis by (simp add: NumberToString_def)
qed

lemma parse_value_number_head:
  assumes "c = 0x2D \<or> is_digit c"
  shows "parse_value (c # r) = (case parse_number (c # r) of None \<Rightarrow> None | Some (x, r') \<Rightarrow> Some (JNumber x, r'))"
proof -
  from assms have ws: "\<not> is_ws c" and c: "c \<noteq> 0x7B" "c \<noteq> 0x5B" "c \<noteq> 0x22" "c \<noteq> 0x74" "c \<noteq> 0x66" "c \<noteq> 0x6E"
    by (auto simp: is_ws_def is_digit_def)
  show ?thesis
    using c by (subst parse_value.simps) (simp add: skip_ws_nonws[OF ws] js_def)
qed

lemma reads_number: "reads (NumberToString n) (JNumber (of_int n))"
  unfolding reads_def
proof (intro allI impI)
  fix rest assume d: "delimited rest"
  obtain c r where cr: "NumberToString n @ rest = c # r" "c = 0x2D \<or> is_digit c"
    using NumberToString_head by blast
  have "parse_value (c # r) = (case parse_number (c # r) of None \<Rightarrow> None | Some (x, r') \<Rightarrow> Some (JNumber x, r'))"
    using cr(2) by (rule parse_value_number_head)
  then show "parse_value (NumberToString n @ rest) = Some (JNumber (of_int n), rest)"
    unfolding cr(1)[symmetric] by (simp add: parse_number_NumberToString[OF d])
qed

lemma skip_ws_append_ws: "\<forall>c\<in>set w. is_ws c \<Longrightarrow> skip_ws (w @ cs) = skip_ws cs"
  by (simp add: skip_ws_def dropWhile_append2)

lemma parse_members_step:
  assumes r: "reads t v" and d: "delimited tail" and w: "\<forall>c\<in>set w. is_ws c"
  shows "parse_members (w @ QuoteJSONString k @ [0x3A, 0x20] @ t @ tail) =
           (case skip_ws tail of
              [] \<Rightarrow> None
            | d # r4 \<Rightarrow>
                if d = 0x7D then Some ([(k, v)], r4)
                else if d = 0x2C \<and> length r4 < length (w @ QuoteJSONString k @ [0x3A, 0x20] @ t @ tail) then
                  (case parse_members r4 of
                     None \<Rightarrow> None
                   | Some (kvs, r5) \<Rightarrow> Some ((k, v) # kvs, r5))
                else None)"
proof -
  have pv: "parse_value (0x20 # t @ tail) = Some (v, tail)"
    using r d by (simp add: parse_value_ws is_ws_def reads_def)
  have sk: "skip_ws (w @ QuoteJSONString k @ [0x3A, 0x20] @ t @ tail) =
              0x22 # quote_units k @ 0x22 # 0x3A # 0x20 # t @ tail"
    by (simp add: skip_ws_append_ws[OF w] QuoteJSONString_def skip_ws_nonws is_ws_def)
  have sc: "string_chars (quote_units k @ 0x22 # 0x3A # 0x20 # t @ tail) = Some (k, 0x3A # 0x20 # t @ tail)"
    by (rule string_chars_quote_units)
  have sk2: "skip_ws (0x3A # 0x20 # t @ tail) = 0x3A # 0x20 # t @ tail"
    by (simp add: skip_ws_nonws is_ws_def)
  have len: "length (0x20 # t @ tail) < length (w @ QuoteJSONString k @ [0x3A, 0x20] @ t @ tail)"
    by (simp add: QuoteJSONString_def)
  show ?thesis
    by (subst parse_members.simps) (simp only: sk sc sk2 pv len list.case option.case prod.case simp_thms if_True if_False)
qed

lemma join_Cons2: "xs \<noteq> [] \<Longrightarrow> join (x # xs) sep = x @ sep @ join xs sep"
  by (cases xs) simp_all

lemma parse_members_join:
  assumes "kts \<noteq> []" and "\<forall>(k, t, v)\<in>set kts. reads t v" and "\<forall>c\<in>set w. is_ws c"
  shows "parse_members
           (w @ join (map (\<lambda>(k, t, v). QuoteJSONString k @ [0x3A, 0x20] @ t) kts) ([0x2C, 0x0A] @ indent ind)
              @ [0x0A] @ indent sb @ 0x7D # rest)
         = Some (map (\<lambda>(k, t, v). (k, v)) kts, rest)"
  using assms
proof (induction kts arbitrary: w rule: list_nonempty_induct)
  case (single x)
  obtain k t v where x: "x = (k, t, v)" by (cases x)
  let ?tail = "0x0A # indent sb @ 0x7D # rest"
  have d: "delimited ?tail" by (simp add: delimited_def)
  have sk: "skip_ws ?tail = 0x7D # rest"
    by (simp add: skip_ws_ws skip_ws_indent skip_ws_nonws is_ws_def)
  from single x have r: "reads t v" by simp
  have "parse_members (w @ QuoteJSONString k @ [0x3A, 0x20] @ t @ ?tail) = Some ([(k, v)], rest)"
    unfolding parse_members_step[OF r d single(2), of k] sk by simp
  then show ?case
    by (simp add: x)
next
  case (cons x kts)
  obtain k t v where x: "x = (k, t, v)" by (cases x)
  let ?m = "\<lambda>(k, t, v). QuoteJSONString k @ [0x3A, 0x20] @ t"
  let ?next = "join (map ?m kts) ([0x2C, 0x0A] @ indent ind) @ [0x0A] @ indent sb @ 0x7D # rest"
  let ?tail = "0x2C # (0x0A # indent ind) @ ?next"
  have d: "delimited ?tail" by (simp add: delimited_def)
  have sk: "skip_ws ?tail = ?tail"
    by (simp add: skip_ws_nonws is_ws_def)
  from cons(3) x have r: "reads t v" by simp
  have w': "\<forall>c\<in>set (0x0A # indent ind). is_ws c" by (simp add: is_ws_def indent_def)
  have ih: "parse_members ((0x0A # indent ind) @ ?next) = Some (map (\<lambda>(k, t, v). (k, v)) kts, rest)"
    using cons(2)[OF _ w'] cons(3) by simp
  have len: "length ((0x0A # indent ind) @ ?next) < length (w @ QuoteJSONString k @ [0x3A, 0x20] @ t @ ?tail)"
    by simp
  have j: "join (map ?m (x # kts)) ([0x2C, 0x0A] @ indent ind) = ?m x @ ([0x2C, 0x0A] @ indent ind) @ join (map ?m kts) ([0x2C, 0x0A] @ indent ind)"
    using cons(1) by (simp add: join_Cons2)
  have "parse_members (w @ QuoteJSONString k @ [0x3A, 0x20] @ t @ ?tail) = Some ((k, v) # map (\<lambda>(k, t, v). (k, v)) kts, rest)"
    unfolding parse_members_step[OF r d cons(4), of k] sk
    by (simp only: list.case ih len option.case prod.case simp_thms if_True if_False) simp
  then show ?case
    unfolding j by (simp add: x)
qed

lemma parse_value_object:
  assumes "parse_members (c # cs) = Some (kvs, rest)" and "\<not> is_ws c" and "c \<noteq> 0x7D"
    and "\<forall>x\<in>set w. is_ws x"
  shows "parse_value (0x7B # w @ c # cs) = Some (JObject kvs, rest)"
  using assms
  by (subst parse_value.simps)
    (simp add: skip_ws_nonws is_ws_def skip_ws_append_ws)

lemma parse_value_array:
  assumes "parse_elements (c # cs) = Some (vs, rest)" and "\<not> is_ws c" and "c \<noteq> 0x5D"
    and "\<forall>x\<in>set w. is_ws x"
  shows "parse_value (0x5B # w @ c # cs) = Some (JArray vs, rest)"
  using assms
  by (subst parse_value.simps)
    (simp add: skip_ws_nonws is_ws_def skip_ws_append_ws)

lemma members_compose:
  "map (\<lambda>(k, strP). QuoteJSONString k @ [0x3A, 0x20] @ strP) (map (\<lambda>(k, t, v). (k, t)) kts)
     = map (\<lambda>(k, t, v). QuoteJSONString k @ [0x3A, 0x20] @ t) kts"
  by (induction kts) auto

lemma join_members_head:
  assumes "kts \<noteq> []"
  shows "\<exists>cs. join (map (\<lambda>(k, t, v). QuoteJSONString k @ [0x3A, 0x20] @ t) kts) sep @ rest = 0x22 # cs"
proof -
  obtain x xs where kts: "kts = x # xs" using assms by (cases kts) auto
  obtain k t v where x: "x = (k, t, v)" by (cases x)
  show ?thesis
    by (cases xs) (simp_all add: kts x QuoteJSONString_def)
qed

lemma reads_object:
  assumes "\<forall>(k, t, v)\<in>set kts. reads t v"
  shows "reads (SerializeJSONObject sb (map (\<lambda>(k, t, v). (k, t)) kts)) (JObject (map (\<lambda>(k, t, v). (k, v)) kts))"
proof (cases "kts = []")
  case True
  show ?thesis
    unfolding reads_def True
    by (subst parse_value.simps) (simp add: SerializeJSONObject_def skip_ws_nonws is_ws_def)
next
  case False
  let ?m = "\<lambda>(k, t, v). QuoteJSONString k @ [0x3A, 0x20] @ t"
  let ?sep = "[0x2C, 0x0A] @ indent (sb + 2)"
  show ?thesis
    unfolding reads_def
  proof (intro allI impI)
    fix rest assume "delimited rest"
    let ?body = "join (map ?m kts) ?sep @ [0x0A] @ indent sb @ 0x7D # rest"
    obtain cs where cs: "?body = 0x22 # cs"
      using join_members_head[OF False] by blast
    have pm: "parse_members (0x22 # cs) = Some (map (\<lambda>(k, t, v). (k, v)) kts, rest)"
      using parse_members_join[OF False assms, of "[]" "sb + 2" sb rest] cs by simp
    have w: "\<forall>x\<in>set (0x0A # indent (sb + 2)). is_ws x" by (simp add: is_ws_def indent_def)
    have "parse_value (0x7B # (0x0A # indent (sb + 2)) @ 0x22 # cs) = Some (JObject (map (\<lambda>(k, t, v). (k, v)) kts), rest)"
      using pm by (rule parse_value_object) (simp_all add: is_ws_def indent_def)
    moreover have "SerializeJSONObject sb (map (\<lambda>(k, t, v). (k, t)) kts) @ rest = 0x7B # (0x0A # indent (sb + 2)) @ ?body"
      unfolding SerializeJSONObject_def members_compose Let_def using False by simp
    ultimately show "parse_value (SerializeJSONObject sb (map (\<lambda>(k, t, v). (k, t)) kts) @ rest)
        = Some (JObject (map (\<lambda>(k, t, v). (k, v)) kts), rest)"
      by (simp only: cs)
  qed
qed

lemma parse_value_append_ws: "\<forall>c\<in>set w. is_ws c \<Longrightarrow> parse_value (w @ cs) = parse_value cs"
  using parse_value_skip[of "w @ cs"] parse_value_skip[of cs] by (simp add: skip_ws_append_ws)

lemma parse_elements_step:
  assumes r: "reads t v" and d: "delimited tail" and w: "\<forall>c\<in>set w. is_ws c"
  shows "parse_elements (w @ t @ tail) =
           (case skip_ws tail of
              [] \<Rightarrow> None
            | d # r' \<Rightarrow>
                if d = 0x5D then Some ([v], r')
                else if d = 0x2C \<and> length r' < length (w @ t @ tail) then
                  (case parse_elements r' of
                     None \<Rightarrow> None
                   | Some (vs, r'') \<Rightarrow> Some (v # vs, r''))
                else None)"
proof -
  have pv: "parse_value (w @ t @ tail) = Some (v, tail)"
    using r d by (simp add: parse_value_append_ws[OF w] reads_def)
  show ?thesis
    by (subst parse_elements.simps) (simp only: pv option.case prod.case)
qed

lemma parse_elements_join:
  assumes "tvs \<noteq> []" and "\<forall>(t, v)\<in>set tvs. reads t v" and "\<forall>c\<in>set w. is_ws c"
  shows "parse_elements
           (w @ join (map fst tvs) ([0x2C, 0x0A] @ indent ind) @ [0x0A] @ indent sb @ 0x5D # rest)
         = Some (map snd tvs, rest)"
  using assms
proof (induction tvs arbitrary: w rule: list_nonempty_induct)
  case (single x)
  obtain t v where x: "x = (t, v)" by (cases x)
  let ?tail = "0x0A # indent sb @ 0x5D # rest"
  have d: "delimited ?tail" by (simp add: delimited_def)
  have sk: "skip_ws ?tail = 0x5D # rest"
    by (simp add: skip_ws_ws skip_ws_indent skip_ws_nonws is_ws_def)
  from single x have r: "reads t v" by simp
  have "parse_elements (w @ t @ ?tail) = Some ([v], rest)"
    unfolding parse_elements_step[OF r d single(2)] sk by simp
  then show ?case
    by (simp add: x)
next
  case (cons x tvs)
  obtain t v where x: "x = (t, v)" by (cases x)
  let ?next = "join (map fst tvs) ([0x2C, 0x0A] @ indent ind) @ [0x0A] @ indent sb @ 0x5D # rest"
  let ?tail = "0x2C # (0x0A # indent ind) @ ?next"
  have d: "delimited ?tail" by (simp add: delimited_def)
  have sk: "skip_ws ?tail = ?tail"
    by (simp add: skip_ws_nonws is_ws_def)
  from cons(3) x have r: "reads t v" by simp
  have w': "\<forall>c\<in>set (0x0A # indent ind). is_ws c" by (simp add: is_ws_def indent_def)
  have ih: "parse_elements ((0x0A # indent ind) @ ?next) = Some (map snd tvs, rest)"
    using cons(2)[OF _ w'] cons(3) by simp
  have len: "length ((0x0A # indent ind) @ ?next) < length (w @ t @ ?tail)"
    by simp
  have j: "join (map fst (x # tvs)) ([0x2C, 0x0A] @ indent ind) = fst x @ ([0x2C, 0x0A] @ indent ind) @ join (map fst tvs) ([0x2C, 0x0A] @ indent ind)"
    using cons(1) by (simp add: join_Cons2)
  have "parse_elements (w @ t @ ?tail) = Some (v # map snd tvs, rest)"
    unfolding parse_elements_step[OF r d cons(4)] sk
    by (simp only: list.case ih len option.case prod.case simp_thms if_True if_False) simp
  then show ?case
    unfolding j by (simp add: x)
qed

lemma reads_array:
  assumes "\<forall>(t, v)\<in>set tvs. reads t v \<and> starts_value t"
  shows "reads (SerializeJSONArray sb (map fst tvs)) (JArray (map snd tvs))"
proof (cases "tvs = []")
  case True
  show ?thesis
    unfolding reads_def True
    by (subst parse_value.simps) (simp add: SerializeJSONArray_def skip_ws_nonws is_ws_def)
next
  case False
  let ?sep = "[0x2C, 0x0A] @ indent (sb + 2)"
  from assms have rd: "\<forall>(t, v)\<in>set tvs. reads t v" by auto
  show ?thesis
    unfolding reads_def
  proof (intro allI impI)
    fix rest assume "delimited rest"
    let ?body = "join (map fst tvs) ?sep @ [0x0A] @ indent sb @ 0x5D # rest"
    obtain x xs where tvs: "tvs = x # xs" using False by (cases tvs) auto
    obtain t v where x: "x = (t, v)" by (cases x)
    from assms tvs x have "starts_value t" by simp
    then obtain c t' where t: "t = c # t'" "\<not> is_ws c" "c \<noteq> 0x5D"
      by (cases t) (auto simp: starts_value_def)
    have "\<exists>cs. ?body = c # cs"
      by (cases xs) (simp_all add: tvs x t)
    then obtain cs where cs: "?body = c # cs" by blast
    have pm: "parse_elements (c # cs) = Some (map snd tvs, rest)"
      using parse_elements_join[OF False rd, of "[]" "sb + 2" sb rest] cs by simp
    have "parse_value (0x5B # (0x0A # indent (sb + 2)) @ c # cs) = Some (JArray (map snd tvs), rest)"
      using pm t(2,3) by (rule parse_value_array) (simp_all add: is_ws_def indent_def)
    moreover have "SerializeJSONArray sb (map fst tvs) @ rest = 0x5B # (0x0A # indent (sb + 2)) @ ?body"
      unfolding SerializeJSONArray_def Let_def using False by simp
    ultimately show "parse_value (SerializeJSONArray sb (map fst tvs) @ rest) = Some (JArray (map snd tvs), rest)"
      by (simp only: cs)
  qed
qed

lemma reads_isGroup: "reads (if b then js ''true'' else js ''false'') (JBoolean b)"
  by (simp add: reads_true reads_false)

lemma reads_message: "reads (stringify_WhatsAppMessage sb m) (json_of_message m)"
proof -
  let ?kts = "[(js ''id'', QuoteJSONString (id_m m), JString (id_m m)),
         (js ''from'', QuoteJSONString (from_m m), JString (from_m m)),
         (js ''to'', QuoteJSONString (to_m m), JString (to_m m)),
         (js ''timestamp'', NumberToString (timestamp m), JNumber (of_int (timestamp m))),
         (js ''type'', QuoteJSONString (type_string (type_m m)), JString (type_string (type_m m))),
         (js ''content'', QuoteJSONString (content m), JString (content m)),
         (js ''isGroup'', (if isGroup m then js ''true'' else js ''false''), JBoolean (isGroup m))]
        @ (case groupId m of None \<Rightarrow> [] | Some g \<Rightarrow> [(js ''groupId'', QuoteJSONString g, JString g)])
        @ (case senderName m of None \<Rightarrow> [] | Some n \<Rightarrow> [(js ''senderName'', QuoteJSONString n, JString n)])"
  have all: "\<forall>(k, t, v)\<in>set ?kts. reads t v"
    by (auto simp: reads_string reads_number reads_isGroup split: option.splits)
  have a: "map (\<lambda>(k, t, v). (k, t)) ?kts =
        [(js ''id'', QuoteJSONString (id_m m)),
         (js ''from'', QuoteJSONString (from_m m)),
         (js ''to'', QuoteJSONString (to_m m)),
         (js ''timestamp'', NumberToString (timestamp m)),
         (js ''type'', QuoteJSONString (type_string (type_m m))),
         (js ''content'', QuoteJSONString (content m)),
         (js ''isGroup'', if isGroup m then js ''true'' else js ''false'')]
        @ (case groupId m of None \<Rightarrow> [] | Some g \<Rightarrow> [(js ''groupId'', QuoteJSONString g)])
        @ (case senderName m of None \<Rightarrow> [] | Some n \<Rightarrow> [(js ''senderName'', QuoteJSONString n)])"
    by (simp split: option.splits)
  have b: "JObject (map (\<lambda>(k, t, v). (k, v)) ?kts) = json_of_message m"
    by (simp add: json_of_message_def split: option.splits)
  show ?thesis
    using reads_object[OF all, of sb]
    unfolding a b stringify_WhatsAppMessage_def .
qed

lemma starts_value_message: "starts_value (stringify_WhatsAppMessage sb m)"
  by (simp add: starts_value_def stringify_WhatsAppMessage_def SerializeJSONObject_def is_ws_def)

lemma reads_messages:
  "reads (SerializeJSONArray sb (map (stringify_WhatsAppMessage sb') ms)) (JArray (map json_of_message ms))"
proof -
  let ?tvs = "map (\<lambda>m. (stringify_WhatsAppMessage sb' m, json_of_message m)) ms"
  have "\<forall>(t, v)\<in>set ?tvs. reads t v \<and> starts_value t"
    by (auto simp: reads_message starts_value_message)
  from reads_array[OF this, of sb] show ?thesis
    by (simp add: comp_def)
qed

lemma reads_history: "reads (stringify_ChatHistory h) (json_of_history h)"
proof -
  let ?kts = "[(js ''chatId'', QuoteJSONString (chatId h), JString (chatId h)),
        (js ''messages'', SerializeJSONArray 2 (map (stringify_WhatsAppMessage 4) (messages h)), JArray (map json_of_message (messages h))),
        (js ''lastUpdated'', NumberToString (lastUpdated h), JNumber (of_int (lastUpdated h)))]"
  have all: "\<forall>(k, t, v)\<in>set ?kts. reads t v"
    by (simp add: reads_string reads_number reads_messages)
  show ?thesis
    using reads_object[OF all, of 0]
    by (simp add: stringify_ChatHistory_def json_of_history_def)
qed

lemma JSON_parse_stringify: "JSON_parse (stringify_ChatHistory h) = Some (json_of_history h)"
proof -
  have "delimited []" by (simp add: delimited_def)
  with reads_history[of h] have "parse_value (stringify_ChatHistory h @ []) = Some (json_of_history h, [])"
    unfolding reads_def by blast
  then show ?thesis
    by (simp add: JSON_parse_def skip_ws_def)
qed

lemma js_inject: "js a = js b \<longleftrightarrow> a = b"
proof -
  have "inj (\<lambda>c. (of_nat (of_char c) :: code_unit))"
  proof (rule injI)
    fix x y :: char
    assume "(of_nat (of_char x) :: code_unit) = of_nat (of_char y)"
    then have "unat (of_nat (of_char x) :: code_unit) = unat (of_nat (of_char y) :: code_unit)" by simp
    moreover have "of_char x < (256::nat)" "of_char y < (256::nat)" by (simp_all add: of_char_def)
    ultimately have "(of_char x :: nat) = of_char y" by (simp add: unat_of_nat)
    then show "x = y" by simp
  qed
  then show ?thesis by (auto simp: js_def dest: map_injective)
qed

lemma as_message_json: "as_WhatsAppMessage (json_of_message m) = Some m"
proof -
  have ty: "as_MessageType (Some (JString (type_string t))) = Some t" for t
    by (cases t) (simp_all add: as_MessageType_def type_string_def js_inject)
  show ?thesis
    by (cases "groupId m"; cases "senderName m")
      (simp_all add: as_WhatsAppMessage_def json_of_message_def get_property_def js_inject
        as_string_def as_integer_def as_boolean_def as_optional_string_def ty)
qed

lemma those_messages: "those (map (as_WhatsAppMessage \<circ> json_of_message) ms) = Some ms"
  by (induction ms) (simp_all add: as_message_json)

lemma as_history_json: "as_ChatHistory (json_of_history h) = Some h"
  by (simp add: as_ChatHistory_def json_of_history_def get_property_def js_inject
      as_string_def as_integer_def as_messages_def those_messages)



section \<open>The parser consumes its input\<close>

text \<open>
  A successful parse leaves a rest that is shorter than the input.  The length tests in
  \<open>parse_elements\<close> and \<open>parse_members\<close> are therefore always passed: they carry the
  termination proof and change no result.
\<close>

lemma string_chars_shrinks: "string_chars cs = Some (s, r) \<Longrightarrow> length r < length cs"
proof (induction cs arbitrary: s r rule: string_chars.induct)
  case 1
  then show ?case by simp
next
  case (2 c cs)
  show ?case
  proof (cases "c = 0x22")
    case True
    with 2(4) show ?thesis by simp
  next
    case nq: False
    show ?thesis
    proof (cases "c = 0x5C")
      case bs: True
      show ?thesis
      proof (cases cs)
        case Nil
        with 2(4) nq bs show ?thesis by simp
      next
        case (Cons e cs1)
        show ?thesis
        proof (cases "e = 0x75")
          case u: True
          from 2(4) nq bs Cons u obtain h1 h2 h3 h4 cs2 x s' where
            cs1: "cs1 = h1 # h2 # h3 # h4 # cs2" and x: "hex4 h1 h2 h3 h4 = Some x"
            and rec: "string_chars cs2 = Some (s', r)"
            by (auto split: list.splits option.splits)
          from 2(1)[OF nq bs Cons u cs1 refl refl refl x rec] show ?thesis
            by (simp add: Cons cs1)
        next
          case nu: False
          from 2(4) nq bs Cons nu obtain x s' where x: "unescape e = Some x"
            and rec: "string_chars cs1 = Some (s', r)"
            by (auto split: option.splits)
          from 2(2)[OF nq bs Cons nu x rec] show ?thesis
            by (simp add: Cons)
        qed
      qed
    next
      case nbs: False
      from 2(4) nq nbs have nc: "\<not> c < 0x20" by (auto split: if_splits)
      from 2(4) nq nbs nc obtain s' where rec: "string_chars cs = Some (s', r)"
        by (auto split: option.splits)
      from 2(3)[OF nq nbs nc rec] show ?thesis by simp
    qed
  qed
qed

lemma parse_fraction_le: "parse_fraction cs = Some (fp, r) \<Longrightarrow> length r \<le> length cs"
  using length_dropWhile_le[of is_digit "tl cs"]
  by (cases cs) (auto simp: parse_fraction_def split: if_splits)

lemma parse_exponent_le: "parse_exponent cs = Some (e, r) \<Longrightarrow> length r \<le> length cs"
proof (cases cs)
  case Nil
  assume "parse_exponent cs = Some (e, r)"
  with Nil show ?thesis by (simp add: parse_exponent_def)
next
  case (Cons c t)
  assume a: "parse_exponent cs = Some (e, r)"
  show ?thesis
  proof (cases "c = 0x65 \<or> c = 0x45")
    case False
    with a Cons show ?thesis by (auto simp: parse_exponent_def)
  next
    case True
    have d: "length (dropWhile is_digit x) \<le> length x" for x :: jsstring
      by (rule length_dropWhile_le)
    from a Cons True show ?thesis
      using d[of t] d[of "tl t"]
      by (cases t) (auto simp: parse_exponent_def Let_def split: if_splits)
  qed
qed

lemma parse_sign_le: "parse_sign cs = (neg, r) \<Longrightarrow> length r \<le> length cs"
  by (cases cs) (auto simp: parse_sign_def split: if_splits)

lemma parse_number_shrinks: "parse_number cs = Some (x, r) \<Longrightarrow> length r < length cs"
proof -
  assume a: "parse_number cs = Some (x, r)"
  obtain neg cs1 where s: "parse_sign cs = (neg, cs1)" by (cases "parse_sign cs")
  from a s have ne: "takeWhile is_digit cs1 \<noteq> []"
    by (auto simp: parse_number_def Let_def split: if_splits)
  from a s ne obtain fp cs2 e where f: "parse_fraction (dropWhile is_digit cs1) = Some (fp, cs2)"
    and ex: "parse_exponent cs2 = Some (e, r)"
    by (auto simp: parse_number_def Let_def split: if_splits option.splits)
  have "length (takeWhile is_digit cs1) + length (dropWhile is_digit cs1) = length cs1"
    by (metis length_append takeWhile_dropWhile_id)
  with ne have "length (dropWhile is_digit cs1) < length cs1"
    by (cases "takeWhile is_digit cs1") auto
  with parse_fraction_le[OF f] parse_exponent_le[OF ex] parse_sign_le[OF s]
  show ?thesis by linarith
qed

lemma skip_ws_eq_length: "skip_ws cs = c # r \<Longrightarrow> Suc (length r) \<le> length cs"
  using skip_ws_length[of cs] by simp

lemma parse_shrinks:
  "\<forall>v r. parse_value cs = Some (v, r) \<longrightarrow> length r < length cs"
  "\<forall>vs r. parse_elements cs1 = Some (vs, r) \<longrightarrow> length r < length cs1"
  "\<forall>kvs r. parse_members cs2 = Some (kvs, r) \<longrightarrow> length r < length cs2"
proof (induction cs and cs1 and cs2 rule: parse_value_parse_elements_parse_members.induct)
  case (1 cs)
  show ?case
  proof (intro allI impI)
    fix v r0 assume a: "parse_value cs = Some (v, r0)"
    from a obtain c r where sk: "skip_ws cs = c # r"
      by (subst (asm) parse_value.simps) (auto split: list.splits)
    note len = skip_ws_eq_length[OF sk]
    show "length r0 < length cs"
    proof (cases "c = 0x7B")
      case ob: True
      from a sk ob obtain d r' where sk2: "skip_ws r = d # r'"
        by (subst (asm) parse_value.simps) (auto split: list.splits)
      note len2 = skip_ws_eq_length[OF sk2]
      show ?thesis
      proof (cases "d = 0x7D")
        case True
        with a sk ob sk2 have "r0 = r'"
          by (subst (asm) parse_value.simps) simp
        with len len2 show ?thesis by simp
      next
        case False
        with a sk ob sk2 obtain kvs where "parse_members (d # r') = Some (kvs, r0)"
          by (subst (asm) parse_value.simps) (auto split: option.splits)
        with 1(1)[OF sk ob sk2 False] have "length r0 < length (d # r')" by blast
        with len len2 show ?thesis by simp
      qed
    next
      case nob: False
      show ?thesis
      proof (cases "c = 0x5B")
        case ar: True
        from a sk nob ar obtain d r' where sk2: "skip_ws r = d # r'"
          by (subst (asm) parse_value.simps) (auto split: list.splits)
        note len2 = skip_ws_eq_length[OF sk2]
        show ?thesis
        proof (cases "d = 0x5D")
          case True
          with a sk nob ar sk2 have "r0 = r'"
            by (subst (asm) parse_value.simps) simp
          with len len2 show ?thesis by simp
        next
          case False
          with a sk nob ar sk2 obtain vs where "parse_elements (d # r') = Some (vs, r0)"
            by (subst (asm) parse_value.simps) (auto split: option.splits)
          with 1(2)[OF sk nob ar sk2 False] have "length r0 < length (d # r')" by blast
          with len len2 show ?thesis by simp
        qed
      next
        case nar: False
        show ?thesis
        proof (cases "c = 0x22")
          case True
          with a sk nob nar obtain s where "string_chars r = Some (s, r0)"
            by (subst (asm) parse_value.simps) (auto split: option.splits)
          from string_chars_shrinks[OF this] len show ?thesis by simp
        next
          case nst: False
          have lit: "take n (c # r) = js w \<Longrightarrow> length (js w) = n \<Longrightarrow> 0 < n \<Longrightarrow>
                     length (drop n (c # r)) < length cs" for n w
            using len by (metis Suc_le_lessD diff_less length_Cons length_drop length_greater_0_conv
                length_take less_le_trans list.distinct(1) min.absorb2 nat_le_linear take_all_iff)
          from a sk nob nar nst
          consider "take 4 (c # r) = js ''true''" "r0 = drop 4 (c # r)"
            | "take 5 (c # r) = js ''false''" "r0 = drop 5 (c # r)"
            | "take 4 (c # r) = js ''null''" "r0 = drop 4 (c # r)"
            | x where "parse_number (c # r) = Some (x, r0)"
            by (subst (asm) parse_value.simps) (auto split: option.splits if_splits)
          then show ?thesis
          proof cases
            case 1
            then show ?thesis using lit[of 4 "''true''"] by (simp add: js_def)
          next
            case 2
            then show ?thesis using lit[of 5 "''false''"] by (simp add: js_def)
          next
            case 3
            then show ?thesis using lit[of 4 "''null''"] by (simp add: js_def)
          next
            case 4
            from parse_number_shrinks[OF 4] len show ?thesis by simp
          qed
        qed
      qed
    qed
  qed
next
  case (2 cs)
  show ?case
  proof (intro allI impI)
    fix vs r0 assume a: "parse_elements cs = Some (vs, r0)"
    from a obtain v r where pv: "parse_value cs = Some (v, r)"
      by (subst (asm) parse_elements.simps) (auto split: option.splits)
    with 2(1) have l1: "length r < length cs" by blast
    from a pv obtain d r' where sk: "skip_ws r = d # r'"
      by (subst (asm) parse_elements.simps) (auto split: list.splits)
    note len = skip_ws_eq_length[OF sk]
    show "length r0 < length cs"
    proof (cases "d = 0x5D")
      case True
      with a pv sk have "r0 = r'"
        by (subst (asm) parse_elements.simps) simp
      with l1 len show ?thesis by simp
    next
      case False
      with a pv sk have c: "d = 0x2C \<and> length r' < length cs"
        by (subst (asm) parse_elements.simps) (auto split: if_splits)
      with a pv sk False obtain vs' where "parse_elements r' = Some (vs', r0)"
        by (subst (asm) parse_elements.simps) (auto split: option.splits)
      with 2(2)[OF pv refl sk False c] have "length r0 < length r'" by blast
      with c show ?thesis by simp
    qed
  qed
next
  case (3 cs)
  show ?case
  proof (intro allI impI)
    fix kvs r0 assume a: "parse_members cs = Some (kvs, r0)"
    from a obtain q r where sk: "skip_ws cs = q # r"
      by (subst (asm) parse_members.simps) (auto split: list.splits)
    from a sk have q: "\<not> q \<noteq> 0x22"
      by (subst (asm) parse_members.simps) (auto split: if_splits)
    from a sk q obtain k r1 where sc: "string_chars r = Some (k, r1)"
      by (subst (asm) parse_members.simps) (auto split: option.splits)
    from a sk q sc obtain colon r2 where sk1: "skip_ws r1 = colon # r2"
      by (subst (asm) parse_members.simps) (auto split: list.splits)
    from a sk q sc sk1 have c: "colon = 0x3A \<and> length r2 < length cs"
      by (subst (asm) parse_members.simps) (auto split: if_splits)
    from a sk q sc sk1 c obtain v r3 where pv: "parse_value r2 = Some (v, r3)"
      by (subst (asm) parse_members.simps) (auto split: option.splits)
    with 3(1)[OF sk q sc refl sk1 c] have l3: "length r3 < length r2" by blast
    from a sk q sc sk1 c pv obtain d r4 where sk3: "skip_ws r3 = d # r4"
      by (subst (asm) parse_members.simps) (auto split: list.splits)
    note len3 = skip_ws_eq_length[OF sk3]
    show "length r0 < length cs"
    proof (cases "d = 0x7D")
      case True
      with a sk q sc sk1 c pv sk3 have "r0 = r4"
        by (subst (asm) parse_members.simps) simp
      with c l3 len3 show ?thesis by simp
    next
      case False
      with a sk q sc sk1 c pv sk3 have c2: "d = 0x2C \<and> length r4 < length cs"
        by (subst (asm) parse_members.simps) (auto split: if_splits)
      with a sk q sc sk1 c pv sk3 False obtain kvs' where "parse_members r4 = Some (kvs', r0)"
        by (subst (asm) parse_members.simps) (auto split: option.splits)
      with 3(2)[OF sk q sc refl sk1 c pv refl sk3 False c2] have "length r0 < length r4" by blast
      with c2 show ?thesis by simp
    qed
  qed
qed

lemma parse_elements_unguarded:
  "parse_elements cs =
     (case parse_value cs of
        None \<Rightarrow> None
      | Some (v, r) \<Rightarrow>
          (case skip_ws r of
             [] \<Rightarrow> None
           | d # r' \<Rightarrow>
               if d = 0x5D then Some ([v], r')
               else if d = 0x2C then
                 (case parse_elements r' of
                    None \<Rightarrow> None
                  | Some (vs, r'') \<Rightarrow> Some (v # vs, r''))
               else None))"
proof (cases "parse_value cs")
  case None
  then show ?thesis by (subst parse_elements.simps) simp
next
  case (Some p)
  obtain v r where p: "p = (v, r)" by (cases p)
  from Some p parse_shrinks(1)[of cs] have l: "length r < length cs" by blast
  show ?thesis
  proof (cases "skip_ws r")
    case Nil
    with Some p show ?thesis by (subst parse_elements.simps) simp
  next
    case (Cons d r')
    from skip_ws_eq_length[OF Cons] l have "length r' < length cs" by simp
    with Some p Cons show ?thesis by (subst parse_elements.simps) simp
  qed
qed

lemma parse_members_unguarded:
  "parse_members cs =
     (case skip_ws cs of
        [] \<Rightarrow> None
      | q # r \<Rightarrow>
          if q \<noteq> 0x22 then None
          else
            (case string_chars r of
               None \<Rightarrow> None
             | Some (k, r1) \<Rightarrow>
                 (case skip_ws r1 of
                    [] \<Rightarrow> None
                  | colon # r2 \<Rightarrow>
                      if colon = 0x3A then
                        (case parse_value r2 of
                           None \<Rightarrow> None
                         | Some (v, r3) \<Rightarrow>
                             (case skip_ws r3 of
                                [] \<Rightarrow> None
                              | d # r4 \<Rightarrow>
                                  if d = 0x7D then Some ([(k, v)], r4)
                                  else if d = 0x2C then
                                    (case parse_members r4 of
                                       None \<Rightarrow> None
                                     | Some (kvs, r5) \<Rightarrow> Some ((k, v) # kvs, r5))
                                  else None))
                      else None)))"
proof -
  have g1: "length r2 < length cs"
    if "skip_ws cs = q # r" "string_chars r = Some (k, r1)" "skip_ws r1 = colon # r2"
    for q r k r1 colon r2
    using skip_ws_eq_length[OF that(1)] string_chars_shrinks[OF that(2)] skip_ws_eq_length[OF that(3)]
    by simp
  have g2: "length r4 < length cs"
    if "skip_ws cs = q # r" "string_chars r = Some (k, r1)" "skip_ws r1 = colon # r2"
      "parse_value r2 = Some (v, r3)" "skip_ws r3 = d # r4"
    for q r k r1 colon r2 v r3 d r4
    using g1[OF that(1,2,3)] parse_shrinks(1)[of r2] that(4) skip_ws_eq_length[OF that(5)]
    by fastforce
  show ?thesis
    by (subst parse_members.simps)
      (auto split: list.splits option.splits simp: g1 g2)
qed

section \<open>Properties of the orchestrator\<close>





section \<open>What every reachable store satisfies\<close>

lemma set_map_set: "set (map_set m k v) \<subseteq> insert (k, v) (set m)"
  by (induction m) (auto split: if_splits)

lemma map_get_in: "map_get m k = Some h \<Longrightarrow> (k, h) \<in> set m"
  by (simp add: map_get_def map_of_SomeD)

lemma store_ok_new: "store_ok (new_ChatHistoryService L)"
  by (simp add: store_ok_def new_ChatHistoryService_def)

lemma store_ok_map_set:
  assumes "store_ok s" and "chatId h = cid"
  shows "store_ok (s\<lparr>chatHistories := map_set (chatHistories s) cid h\<rparr>)"
  using assms set_map_set[of "chatHistories s" cid h]
  by (auto simp: store_ok_def distinct_map_set)

lemma store_ok_addMessage: "store_ok s \<Longrightarrow> store_ok (addMessage s now cid m)"
proof -
  assume ok: "store_ok s"
  show ?thesis
  proof (cases "map_get (chatHistories s) cid")
    case None
    then show ?thesis
      unfolding addMessage_def Let_def using ok by (simp add: store_ok_map_set)
  next
    case (Some h)
    with ok have "chatId h = cid"
      by (auto simp: store_ok_def dest: map_get_in)
    with Some show ?thesis
      unfolding addMessage_def Let_def using ok by (simp add: store_ok_map_set)
  qed
qed

lemma store_ok_filter:
  "store_ok s \<Longrightarrow> store_ok (s\<lparr>chatHistories := filter P (chatHistories s)\<rparr>)"
  by (auto simp: store_ok_def distinct_map_filter)

lemma store_ok_clear: "store_ok s \<Longrightarrow> store_ok (clearChatHistory s cid)"
  using store_ok_filter[of s "\<lambda>e. fst e \<noteq> cid"]
  by (simp add: clearChatHistory_def map_delete_filter store_ok_def)

lemma store_ok_cleanup: "store_ok s \<Longrightarrow> store_ok (fst (cleanupOldHistories s now daysOld))"
  using store_ok_filter[of s]
  by (simp add: cleanupOldHistories_filter store_ok_def)

lemma as_ChatHistory_chatId:
  "as_ChatHistory (JObject kvs) = Some h \<Longrightarrow> get_property kvs (js ''chatId'') = Some (JString (chatId h))"
  by (auto simp: as_ChatHistory_def as_string_def split: Option.bind_splits option.splits json.splits)

lemma importChatHistory_cases:
  assumes "importChatHistory s cid blob = Some (b, s')"
  shows "(\<not> b \<and> s' = s) \<or>
         (\<exists>h. b \<and> chatId h = cid \<and> s' = s\<lparr>chatHistories := map_set (chatHistories s) cid h\<rparr>)"
  using assms
  by (auto simp: importChatHistory_def dest!: as_ChatHistory_chatId
      split: option.splits json.splits if_splits)

lemma store_ok_import:
  "store_ok s \<Longrightarrow> importChatHistory s cid blob = Some (b, s') \<Longrightarrow> store_ok s'"
  by (auto dest!: importChatHistory_cases simp: store_ok_map_set)

lemma store_ok_apply_op: "store_ok s \<Longrightarrow> apply_op s op = Some s' \<Longrightarrow> store_ok s'"
  by (cases op) (auto simp: store_ok_addMessage store_ok_clear store_ok_cleanup dest: store_ok_import)

lemma store_ok_run_ops: "store_ok s \<Longrightarrow> run_ops s ops = Some s' \<Longrightarrow> store_ok s'"
  by (induction ops arbitrary: s) (auto split: option.splits dest: store_ok_apply_op)

lemma reachable_store_ok: "run_ops (new_ChatHistoryService L) ops = Some s \<Longrightarrow> store_ok s"
  using store_ok_new by (rule store_ok_run_ops)

section \<open>Bounded history and recent messages\<close>

lemma getChatHistory_new: "getChatHistory (new_ChatHistoryService L) cid = []"
  by (simp add: getChatHistory_def new_ChatHistoryService_def map_get_def)

lemma maxHistoryLength_new: "maxHistoryLength (new_ChatHistoryService L) = L"
  by (simp add: new_ChatHistoryService_def)

lemma append_keeps_most_recent:
  assumes "1 \<le> L"
  shows "getChatHistory (appendAll (new_ChatHistoryService L) cid calls) cid = lastN (nat L) (map snd calls)"
  using appendAll_lastN[of "new_ChatHistoryService L" cid calls] assms
  by (simp add: getChatHistory_new maxHistoryLength_new)

lemma append_scenario:
  "getChatHistory (appendAll (new_ChatHistoryService 3) cid [(t1, a), (t2, b), (t3, c), (t4, d)]) cid = [b, c, d]"
proof -
  have "getChatHistory (appendAll (new_ChatHistoryService 3) cid [(t1, a), (t2, b), (t3, c), (t4, d)]) cid
          = lastN (nat 3) (map snd [(t1, a), (t2, b), (t3, c), (t4, d)])"
    by (rule append_keeps_most_recent) simp
  then show ?thesis by (simp add: lastN_def)
qed

text \<open>
  C2.  The claim: after every \<open>addMessage\<close> the history holds at most \<open>maxHistoryLength\<close>
  messages, the most recent ones in arrival order.  With a limit of at least one this is
  \<open>append_keeps_most_recent\<close>, and \<open>append_scenario\<close> is the run A, B, C, D under limit 3.
  With the limit 0 the truncation is \<open>messages.slice(-0)\<close>, which copies the whole
  array: the history below holds four messages under a limit of zero.
\<close>

theorem C2_limit_zero_keeps_every_message:
  "getChatHistory
     (appendAll (new_ChatHistoryService 0) (js ''chat'')
        [(1, example_message ''A'' ''u'' ''a''), (2, example_message ''B'' ''u'' ''b''),
         (3, example_message ''C'' ''u'' ''c''), (4, example_message ''D'' ''u'' ''d'')])
     (js ''chat'')
   = [example_message ''A'' ''u'' ''a'', example_message ''B'' ''u'' ''b'',
      example_message ''C'' ''u'' ''c'', example_message ''D'' ''u'' ''d'']"
  by (simp add: getChatHistory_addMessage getChatHistory_new maxHistoryLength_new slice_from_def)

lemma getRecentMessages_positive:
  "0 < n \<Longrightarrow> getRecentMessages s cid n = lastN (nat n) (getChatHistory s cid)"
  by (simp add: getRecentMessages_def slice_from_neg lastN_def)

lemma getRecentMessages_unknown:
  "map_get (chatHistories s) cid = None \<Longrightarrow> getRecentMessages s cid n = []"
  by (simp add: getRecentMessages_def getChatHistory_def slice_from_def)

text \<open>
  C4.  The claim: \<open>getRecentMessages(chatId, n)\<close> returns the last \<open>min(n, len)\<close> messages
  for every \<open>n \<ge> 0\<close>, and nothing for an unknown chat.  For \<open>n \<ge> 1\<close> this is
  \<open>getRecentMessages_positive\<close>, for an unknown chat \<open>getRecentMessages_unknown\<close>.  For
  \<open>n = 0\<close> the code evaluates \<open>messages.slice(-0)\<close> and returns the whole history: one
  message below, where the claim asks for none.
\<close>

theorem C4_recent_zero_returns_whole_history:
  "getRecentMessages
     (addMessage (new_ChatHistoryService 50) 1 (js ''chat'') (example_message ''A'' ''u'' ''a''))
     (js ''chat'') 0
   = [example_message ''A'' ''u'' ''a'']"
  by (simp add: getRecentMessages_def getChatHistory_addMessage getChatHistory_new
      maxHistoryLength_new slice_from_def)

section \<open>Dialogue turns and topics\<close>

lemma buildConversationContext_eq:
  "buildConversationContext h =
     map (\<lambda>m. \<lparr>role = (if includes_js (from_m m) (js ''@s.whatsapp.net'') then Assistant else User),
                content_c = content m\<rparr>)
       (filter (\<lambda>m. \<exists>c\<in>set (content m). \<not> is_trimmed_unit c) (lastN 10 h))"
  by (simp add: buildConversationContext_def context_loop_eq slice_from_neg lastN_def)

text \<open>
  \<open>buildConversationContext\<close> takes the last 10 messages (the window is fixed in the code),
  drops those whose content is empty or consists of trimmed code units only, keeps the
  order, and tags a message \<open>assistant\<close> when its \<open>from\<close> contains \<open>@s.whatsapp.net\<close>,
  \<open>user\<close> otherwise.  On a history of 12 messages of which the fifth has an empty content
  and the others have not, the result has 9 entries.
\<close>

lemma dialogue_turns:
  "buildConversationContext h =
     map (\<lambda>m. \<lparr>role = (if includes_js (from_m m) (js ''@s.whatsapp.net'') then Assistant else User),
                content_c = content m\<rparr>)
       (filter (\<lambda>m. \<exists>c\<in>set (content m). \<not> is_trimmed_unit c) (lastN 10 h))
   \<and> (h = before @ m5 # after \<and> length before = 4 \<and> length after = 7 \<and> content m5 = [] \<and>
        (\<forall>m\<in>set (before @ after). \<exists>c\<in>set (content m). \<not> is_trimmed_unit c)
      \<longrightarrow> length (buildConversationContext h) = 9)"
proof (intro conjI impI)
  show "buildConversationContext h =
     map (\<lambda>m. \<lparr>role = (if includes_js (from_m m) (js ''@s.whatsapp.net'') then Assistant else User),
                content_c = content m\<rparr>)
       (filter (\<lambda>m. \<exists>c\<in>set (content m). \<not> is_trimmed_unit c) (lastN 10 h))"
    by (rule buildConversationContext_eq)
next
  let ?P = "\<lambda>m. \<exists>c\<in>set (content m). \<not> is_trimmed_unit c"
  assume a: "h = before @ m5 # after \<and> length before = 4 \<and> length after = 7 \<and> content m5 = [] \<and>
        (\<forall>m\<in>set (before @ after). ?P m)"
  then have l: "lastN 10 h = drop 2 before @ m5 # after"
    by (simp add: lastN_def)
  from a have "\<forall>m\<in>set (drop 2 before). ?P m"
    by (auto dest: in_set_dropD)
  then have f1: "filter ?P (drop 2 before) = drop 2 before"
    by (simp add: filter_id_conv)
  from a have f2: "filter ?P after = after"
    by (simp add: filter_id_conv)
  from a have f3: "\<not> ?P m5" by simp
  have "filter ?P (lastN 10 h) = drop 2 before @ after"
    unfolding l using f1 f2 f3 by simp
  then show "length (buildConversationContext h) = 9"
    using a by (simp add: buildConversationContext_eq)
qed

lemma dialogue_turns_scenario:
  "length example_history = 12 \<and> content (example_history ! 4) = [] \<and>
   length (buildConversationContext example_history) = 9 \<and>
   map role (buildConversationContext example_history) =
     [User, Assistant, Assistant, User, Assistant, User, Assistant, User, Assistant]"
proof -
  let ?before = "take 4 example_history" and ?m5 = "example_history ! 4" and ?after = "drop 5 example_history"
  have h: "example_history = ?before @ ?m5 # ?after \<and> length ?before = 4 \<and> length ?after = 7 \<and>
        content ?m5 = [] \<and>
        (\<forall>m\<in>set (?before @ ?after). \<exists>c\<in>set (content m). \<not> is_trimmed_unit c)"
    by (simp add: example_history_def example_message_def js_def is_trimmed_unit_def)
  have r: "map role (map (\<lambda>m. \<lparr>role = (if includes_js (from_m m) (js ''@s.whatsapp.net'') then Assistant else User),
                content_c = content m\<rparr>)
       (filter (\<lambda>m. \<exists>c\<in>set (content m). \<not> is_trimmed_unit c) (lastN 10 example_history)))
     = [User, Assistant, Assistant, User, Assistant, User, Assistant, User, Assistant]"
    by (simp add: example_history_def example_message_def js_def is_trimmed_unit_def lastN_def)
  have l: "length example_history = 12"
    by (simp add: example_history_def)
  have c: "content (example_history ! 4) = []"
    by (simp add: example_history_def example_message_def js_def)
  from dialogue_turns[of example_history ?before ?m5 ?after] h
  have n: "length (buildConversationContext example_history) = 9" by blast
  from dialogue_turns[of example_history ?before ?m5 ?after] r
  have e: "map role (buildConversationContext example_history) =
     [User, Assistant, Assistant, User, Assistant, User, Assistant, User, Assistant]"
    by (simp only:)
  from l c n e show ?thesis by blast
qed

lemma exchange_history:
  "getChatHistory (chatHistoryService (exchange m)) (to_m m) = [m, botMessage m (js ''hi there'') 2000]"
proof -
  let ?s0 = "new_ChatbotService (new_ChatHistoryService 50) 1000"
  let ?s1 = "handleIncomingMessage ?s0 m 1000 (Returns ())"
  have s1: "suspended ?s1 = [AwaitGenerate m]"
    "chatHistoryService ?s1 = addMessage (new_ChatHistoryService 50) 1000 (to_m m) m"
    by (simp_all add: handleIncomingMessage_def new_ChatbotService_def emit_def Let_def)
  let ?s2 = "after_generate ?s1 0 m (Returns (js ''hi there'')) (Returns ())"
  have s2: "suspended ?s2 = [AwaitDelay m (js ''hi there'')]"
    "chatHistoryService ?s2 = chatHistoryService ?s1"
    by (simp_all add: after_generate_def emit_def Let_def truthy_def js_def s1)
  let ?s3 = "after_delay ?s2 0 m (js ''hi there'')"
  have s3: "suspended ?s3 = [AwaitSend m (js ''hi there'')]"
    "chatHistoryService ?s3 = chatHistoryService ?s1"
    by (simp_all add: after_delay_def emit_def s2)
  let ?s4 = "after_send ?s3 0 m (js ''hi there'') (Returns True) 2000 (Returns ())"
  have s4: "chatHistoryService ?s4 =
      addMessage (chatHistoryService ?s1) 2000 (to_m m) (botMessage m (js ''hi there'') 2000)"
    by (simp add: after_send_def emit_def Let_def finally_block_def s3)
  have r: "exchange m = ?s4"
    by (simp add: exchange_def run_def s1 s2 s3)
  show ?thesis
    unfolding r s4 s1(2)
    by (simp add: getChatHistory_addMessage getChatHistory_new maxHistoryLength_new)
qed

text \<open>
  C3.  The role tag does not tell the bot's messages from the users'.  After one complete
  exchange in a group chat (the orchestrator receives \<open>group_message\<close>, the reply
  \<open>hi there\<close> is generated and sent), the stored history holds the user's message and the
  bot's reply, and \<open>buildConversationContext\<close> tags the user's message \<open>assistant\<close> and the
  bot's reply \<open>user\<close>.  After the same exchange in a private chat both the user's message
  and the bot's reply are tagged \<open>assistant\<close>.
\<close>

theorem C3_roles_do_not_identify_the_bot:
  "getChatHistory (chatHistoryService (exchange group_message)) (to_m group_message)
     = [group_message, botMessage group_message (js ''hi there'') 2000] \<and>
   buildConversationContext
     (getChatHistory (chatHistoryService (exchange group_message)) (to_m group_message))
     = [\<lparr>role = Assistant, content_c = js ''hello''\<rparr>, \<lparr>role = User, content_c = js ''hi there''\<rparr>] \<and>
   buildConversationContext
     (getChatHistory (chatHistoryService (exchange private_message)) (to_m private_message))
     = [\<lparr>role = Assistant, content_c = js ''hello''\<rparr>, \<lparr>role = Assistant, content_c = js ''hi there''\<rparr>]"
  unfolding exchange_history
  by (simp add: buildConversationContext_def slice_from_def botMessage_def group_message_def
      private_message_def truthy_def trim_def is_trimmed_unit_def js_def)

text \<open>
  C7.  \<open>extractContext\<close> returns at most 5 tokens (the bound is fixed in the code); every
  token it returns is longer than 3 code units and is not one of \<open>commonWords\<close>.
\<close>

theorem C7_topics_bounded_and_filtered:
  "length (extractContext toLowerCase h) \<le> 5 \<and>
   (\<forall>t\<in>set (extractContext toLowerCase h). 3 < length t \<and> t \<notin> set commonWords)"
  by (rule extractContext_props)

lemma example_topics:
  "extractContext ascii_toLowerCase example_topics_history =
     [js ''hello'', js ''world'', js ''tests'', js ''more'', js ''words'']"
  by (simp add: extractContext_def example_topics_history_def example_message_def slice_from_def
      slice_range_def split_def ascii_toLowerCase_def isCommonWord_def commonWords_def js_def)

theorem C7_topics_bounded_and_filtered_witness:
  "js ''hello'' \<in> set (extractContext ascii_toLowerCase example_topics_history) \<and>
   length (extractContext ascii_toLowerCase example_topics_history) \<le> 5 \<and>
   3 < length (js ''hello'') \<and> js ''hello'' \<notin> set commonWords"
proof -
  have m: "js ''hello'' \<in> set (extractContext ascii_toLowerCase example_topics_history)"
    by (simp add: example_topics)
  from C7_topics_bounded_and_filtered[of ascii_toLowerCase example_topics_history] m
  show ?thesis by blast
qed

section \<open>Eviction\<close>

lemma map_get_filter:
  "distinct (map fst m) \<Longrightarrow>
   map_get (filter P m) k =
     (case map_get m k of None \<Rightarrow> None | Some h \<Rightarrow> if P (k, h) then Some h else None)"
proof (induction m)
  case Nil
  then show ?case by (simp add: map_get_def)
next
  case (Cons e m)
  obtain k' h' where e: "e = (k', h')" by (cases e)
  from Cons.prems e have n: "map_of m k' = None"
    by (simp add: map_of_eq_None_iff)
  have n': "map_of (filter P m) k' = None"
    using n by (auto simp: map_of_eq_None_iff)
  from Cons e n n' show ?case
    by (auto simp: map_get_def split: option.splits)
qed

text \<open>
  C8.  On every store that the operations can build, \<open>cleanupOldHistories\<close> with the cut-off
  \<open>now - daysOld * 86400000\<close> keeps exactly the entries whose \<open>lastUpdated\<close> is not below the
  cut-off, unchanged and in their order, removes the others, and returns how many it
  removed.
\<close>

theorem C8_cleanup_removes_exactly_the_old:
  assumes "run_ops (new_ChatHistoryService L) ops = Some s"
  shows "cleanupOldHistories s now daysOld =
           (s\<lparr>chatHistories :=
                filter (\<lambda>(k, h). \<not> lastUpdated h < now - daysOld * 86400000) (chatHistories s)\<rparr>,
            length (filter (\<lambda>(k, h). lastUpdated h < now - daysOld * 86400000) (chatHistories s)))
         \<and> (\<forall>k. map_get (chatHistories (fst (cleanupOldHistories s now daysOld))) k =
                (case map_get (chatHistories s) k of
                   None \<Rightarrow> None
                 | Some h \<Rightarrow> if lastUpdated h < now - daysOld * 86400000 then None else Some h))"
proof -
  from assms have d: "distinct (map fst (chatHistories s))"
    using reachable_store_ok by (simp add: store_ok_def)
  have a: "(\<lambda>(k, h). \<not> lastUpdated h < now - daysOld * 86400000) =
           (\<lambda>e. \<not> lastUpdated (snd e) < now - daysOld * 86400000)"
    and b: "(\<lambda>(k, h). lastUpdated h < now - daysOld * 86400000) =
           (\<lambda>e. lastUpdated (snd e) < now - daysOld * 86400000)"
    by (auto simp: fun_eq_iff)
  have c: "cleanupOldHistories s now daysOld =
           (s\<lparr>chatHistories :=
                filter (\<lambda>(k, h). \<not> lastUpdated h < now - daysOld * 86400000) (chatHistories s)\<rparr>,
            length (filter (\<lambda>(k, h). lastUpdated h < now - daysOld * 86400000) (chatHistories s)))"
    unfolding a b by (rule cleanupOldHistories_filter[OF d])
  show ?thesis
    unfolding c by (simp add: map_get_filter[OF d] split: option.splits)
qed

lemma example_store_eq:
  "example_store =
     \<lparr>chatHistories =
        [(js ''chatA'', \<lparr>chatId = js ''chatA'', messages = [example_message ''A'' ''u'' ''a''], lastUpdated = 1000\<rparr>),
         (js ''chatB'', \<lparr>chatId = js ''chatB'', messages = [example_message ''B'' ''u'' ''b''], lastUpdated = 200000000\<rparr>)],
      maxHistoryLength = 50\<rparr>"
  by (simp add: example_store_def addMessage_def new_ChatHistoryService_def map_get_def js_def)

lemma example_store_run:
  "run_ops (new_ChatHistoryService 50)
     [AddMessageOp 1000 (js ''chatA'') (example_message ''A'' ''u'' ''a''),
      AddMessageOp 200000000 (js ''chatB'') (example_message ''B'' ''u'' ''b'')] = Some example_store"
  by (simp add: example_store_def)

theorem C8_cleanup_removes_exactly_the_old_witness:
  "run_ops (new_ChatHistoryService 50)
     [AddMessageOp 1000 (js ''chatA'') (example_message ''A'' ''u'' ''a''),
      AddMessageOp 200000000 (js ''chatB'') (example_message ''B'' ''u'' ''b'')] = Some example_store \<and>
   cleanupOldHistories example_store 200000000 1 =
     (\<lparr>chatHistories =
         [(js ''chatB'', \<lparr>chatId = js ''chatB'', messages = [example_message ''B'' ''u'' ''b''], lastUpdated = 200000000\<rparr>)],
       maxHistoryLength = 50\<rparr>, 1)"
proof -
  from C8_cleanup_removes_exactly_the_old[OF example_store_run, of 200000000 1]
  have "cleanupOldHistories example_store 200000000 1 =
           (example_store\<lparr>chatHistories :=
                filter (\<lambda>(k, h). \<not> lastUpdated h < 200000000 - 1 * 86400000) (chatHistories example_store)\<rparr>,
            length (filter (\<lambda>(k, h). lastUpdated h < 200000000 - 1 * 86400000) (chatHistories example_store)))"
    by blast
  then have "cleanupOldHistories example_store 200000000 1 =
     (\<lparr>chatHistories =
         [(js ''chatB'', \<lparr>chatId = js ''chatB'', messages = [example_message ''B'' ''u'' ''b''], lastUpdated = 200000000\<rparr>)],
       maxHistoryLength = 50\<rparr>, 1)"
    by (simp add: example_store_eq)
  with example_store_run show ?thesis by blast
qed

section \<open>Export and import\<close>





text \<open>
  C6.  When the imported text does not parse to an object whose \<open>chatId\<close> is the target
  (the text holds another chat id, none at all, or is not JSON), \<open>importChatHistory\<close>
  returns \<open>false\<close>, which is how the code reports the failure, and the service is the one
  it was before the call.
\<close>

theorem C6_import_mismatch_leaves_store:
  assumes "\<forall>kvs. JSON_parse blob = Some (JObject kvs) \<longrightarrow>
             get_property kvs (js ''chatId'') \<noteq> Some (JString cid)"
  shows "importChatHistory s cid blob = Some (False, s)"
  using assms by (auto simp: importChatHistory_def split: option.splits json.splits)

lemma scenario_blob:
  \<open>JSON_parse (js ''{"chatId":"chatB","messages":[],"lastUpdated":1}'') =
     Some (JObject [(js ''chatId'', JString (js ''chatB'')), (js ''messages'', JArray []),
                    (js ''lastUpdated'', JNumber 1)])\<close>
  by code_simp

lemma scenario_blob_mismatch:
  \<open>\<forall>kvs. JSON_parse (js ''{"chatId":"chatB","messages":[],"lastUpdated":1}'') = Some (JObject kvs) \<longrightarrow>
         get_property kvs (js ''chatId'') \<noteq> Some (JString (js ''chatA''))\<close>
  by (simp add: scenario_blob get_property_def js_inject)

theorem C6_import_mismatch_leaves_store_witness:
  \<open>JSON_parse (js ''{"chatId":"chatB","messages":[],"lastUpdated":1}'') =
     Some (JObject [(js ''chatId'', JString (js ''chatB'')), (js ''messages'', JArray []),
                    (js ''lastUpdated'', JNumber 1)]) \<and>
   js ''chatB'' \<noteq> js ''chatA'' \<and>
   importChatHistory example_store (js ''chatA'')
       (js ''{"chatId":"chatB","messages":[],"lastUpdated":1}'')
     = Some (False, example_store)\<close>
proof -
  have "js ''chatB'' \<noteq> js ''chatA''" by (simp add: js_inject)
  moreover note scenario_blob
    C6_import_mismatch_leaves_store[OF scenario_blob_mismatch, of example_store]
  ultimately show ?thesis by blast
qed

lemma getChatHistory_map_set:
  "getChatHistory (s\<lparr>chatHistories := map_set (chatHistories s) cid h\<rparr>) cid = messages h"
  by (simp add: getChatHistory_def map_get_map_set)

text \<open>
  C10.  When the imported text parses to a \<open>ChatHistory\<close> whose \<open>chatId\<close> is the target and
  which holds more messages than \<open>maxHistoryLength\<close>, \<open>importChatHistory\<close> returns \<open>true\<close>
  and the history stored for the target is the whole message sequence of the text, longer
  than \<open>maxHistoryLength\<close>.
\<close>

theorem C10_import_does_not_truncate:
  assumes "JSON_parse blob = Some j" and "as_ChatHistory j = Some h" and "chatId h = cid"
    and "maxHistoryLength s < int (length (messages h))"
  shows "\<exists>s'. importChatHistory s cid blob = Some (True, s') \<and>
              getChatHistory s' cid = messages h \<and>
              maxHistoryLength s' = maxHistoryLength s \<and>
              maxHistoryLength s' < int (length (getChatHistory s' cid))"
proof -
  from assms(2) obtain kvs where j: "j = JObject kvs"
    by (cases j) (simp_all add: as_ChatHistory_def)
  with assms(2,3) have g: "get_property kvs (js ''chatId'') = Some (JString cid)"
    using as_ChatHistory_chatId by blast
  let ?s' = "s\<lparr>chatHistories := map_set (chatHistories s) cid h\<rparr>"
  have "importChatHistory s cid blob = Some (True, ?s')"
    using assms(1,2) j g by (simp add: importChatHistory_def)
  moreover have "getChatHistory ?s' cid = messages h"
    by (rule getChatHistory_map_set)
  ultimately show ?thesis
    using assms(4) by (intro exI[of _ ?s']) simp
qed

theorem C10_import_does_not_truncate_witness:
  "JSON_parse (stringify_ChatHistory example_chatB) = Some (json_of_history example_chatB) \<and>
   as_ChatHistory (json_of_history example_chatB) = Some example_chatB \<and>
   maxHistoryLength (new_ChatHistoryService 1) < int (length (messages example_chatB)) \<and>
   (\<exists>s'. importChatHistory (new_ChatHistoryService 1) (js ''chatB'') (stringify_ChatHistory example_chatB)
            = Some (True, s') \<and>
         getChatHistory s' (js ''chatB'') =
           [example_message ''B1'' ''u'' ''one'', example_message ''B2'' ''u'' ''two''] \<and>
         maxHistoryLength s' = 1 \<and>
         maxHistoryLength s' < int (length (getChatHistory s' (js ''chatB''))))"
proof -
  have a: "JSON_parse (stringify_ChatHistory example_chatB) = Some (json_of_history example_chatB)"
    by (rule JSON_parse_stringify)
  have b: "as_ChatHistory (json_of_history example_chatB) = Some example_chatB"
    by (rule as_history_json)
  have c: "chatId example_chatB = js ''chatB''"
    by (simp add: example_chatB_def)
  have d: "maxHistoryLength (new_ChatHistoryService 1) < int (length (messages example_chatB))"
    by (simp add: example_chatB_def new_ChatHistoryService_def)
  have m: "messages example_chatB = [example_message ''B1'' ''u'' ''one'', example_message ''B2'' ''u'' ''two'']"
    by (simp add: example_chatB_def)
  from C10_import_does_not_truncate[OF a b c d] a b d
  show ?thesis
    by (simp add: m maxHistoryLength_new)
qed

section \<open>Single-flight processing\<close>






end
